theory Spec2Isabelle
  imports Main
begin

section \<open>Strings and the pieces of Python's string library the program uses\<close>

text \<open>
  Python strings are modelled as \<^typ>\<open>string\<close>; one \<^typ>\<open>char\<close> stands for one
  character of the Python string, and \<open>length\<close> is Python's \<open>len\<close>.
\<close>

text \<open>\<open>s.lstrip(chars)\<close>, \<open>s.rstrip(chars)\<close> and \<open>s.strip(chars)\<close>.\<close>

definition lstrip :: "string \<Rightarrow> string \<Rightarrow> string" where
  "lstrip chars s = dropWhile (\<lambda>c. c \<in> set chars) s"

definition rstrip :: "string \<Rightarrow> string \<Rightarrow> string" where
  "rstrip chars s = rev (dropWhile (\<lambda>c. c \<in> set chars) (rev s))"

definition strip :: "string \<Rightarrow> string \<Rightarrow> string" where
  "strip chars s = rstrip chars (lstrip chars s)"

text \<open>
  The slice \<open>xs[:m]\<close>: a negative bound counts from the end of the list.
\<close>

definition slice_to :: "'a list \<Rightarrow> int \<Rightarrow> 'a list" where
  "slice_to xs m =
     (if m < 0 then take (nat (int (length xs) + m)) xs else take (nat m) xs)"

section \<open>\<open>sanitize_filename\<close>\<close>

text \<open>
  The character class \<open>[<>:"/\\|?*\x00-\x1f]\<close> of line 40.
\<close>

definition invalid_chars :: "char \<Rightarrow> bool" where
  "invalid_chars c \<longleftrightarrow>
     c \<in> {CHR ''<'', CHR ''>'', CHR '':'', CHR 0x22, CHR ''/'', CHR 0x5C,
          CHR ''|'', CHR ''?'', CHR ''*''}
     \<or> (of_char c :: nat) \<le> 0x1F"

text \<open>\<open>re.sub(invalid_chars, '_', name)\<close>: every character of the class becomes \<open>_\<close>.\<close>

definition replace_invalid :: "string \<Rightarrow> string" where
  "replace_invalid name = map (\<lambda>c. if invalid_chars c then CHR ''_'' else c) name"

text \<open>\<open>re.sub(r'_+', '_', s)\<close>: every maximal run of underscores becomes one underscore.\<close>

fun collapse_underscores :: "string \<Rightarrow> string" where
  "collapse_underscores (a # b # cs) =
     (if a = CHR ''_'' \<and> b = CHR ''_'' then collapse_underscores (b # cs)
      else a # collapse_underscores (b # cs))"
| "collapse_underscores cs = cs"

definition sanitize_filename :: "string \<Rightarrow> int \<Rightarrow> string" where
  "sanitize_filename name max_length =
     (let sanitized = replace_invalid name;
          sanitized = collapse_underscores sanitized;
          sanitized = strip ''. _'' sanitized;
          sanitized = (if int (length sanitized) > max_length
                       then rstrip ''. _'' (slice_to sanitized max_length)
                       else sanitized)
      in if sanitized = [] then ''unnamed'' else sanitized)"

text \<open>The call with the default \<open>max_length = 100\<close>.\<close>

definition sanitize_filename_default :: "string \<Rightarrow> string" where
  "sanitize_filename_default name = sanitize_filename name 100"

text \<open>
  Auxiliary notions for the proofs about the sanitizer: the truncation step of lines 44-45
  on its own, strings without two adjacent underscores, and the shape of the results.
\<close>

definition truncated :: "string \<Rightarrow> int \<Rightarrow> string" where
  "truncated s m = (if int (length s) > m then rstrip ''. _'' (slice_to s m) else s)"

fun no_double :: "string \<Rightarrow> bool" where
  "no_double (a # b # cs) = (\<not> (a = CHR ''_'' \<and> b = CHR ''_'') \<and> no_double (b # cs))"
| "no_double cs = True"

definition clean :: "string \<Rightarrow> int \<Rightarrow> bool" where
  "clean s m \<longleftrightarrow> (\<forall>c\<in>set s. \<not> invalid_chars c) \<and> no_double s \<and> s \<noteq> []
     \<and> hd s \<notin> set ''. _'' \<and> last s \<notin> set ''. _'' \<and> int (length s) \<le> m"

section \<open>\<open>extract_sender_name\<close>\<close>

text \<open>
  Whitespace as \<open>str.strip()\<close> and the regular expression class \<open>\s\<close> see it (the
  characters for which \<open>str.isspace()\<close> holds, below code point 256): tab to carriage
  return, the separators \<open>\x1c\<close> to \<open>\x1f\<close>, space, \<open>\x85\<close> and \<open>\xa0\<close>.
\<close>

definition is_space :: "char \<Rightarrow> bool" where
  "is_space c \<longleftrightarrow>
     (let n = (of_char c :: nat)
      in (9 \<le> n \<and> n \<le> 13) \<or> (28 \<le> n \<and> n \<le> 32) \<or> n = 0x85 \<or> n = 0xA0)"

text \<open>\<open>s.strip()\<close> with no argument.\<close>

definition strip_ws :: "string \<Rightarrow> string" where
  "strip_ws s = rev (dropWhile is_space (rev (dropWhile is_space s)))"

text \<open>
  The pattern \<open>^([^<]+)\s*<[^>]+>$\<close> of line 59, as the backtracking matcher runs it.
  A greedy quantifier tries the longest repetition first and gives characters back one
  at a time; \<open>greedy P lo s\<close> lists the repetition counts it tries on \<open>s\<close>, in that order,
  and \<open>first_some\<close> returns the first alternative that succeeds.
\<close>

fun first_some :: "('a \<Rightarrow> 'b option) \<Rightarrow> 'a list \<Rightarrow> 'b option" where
  "first_some f [] = None"
| "first_some f (x # xs) = (case f x of Some y \<Rightarrow> Some y | None \<Rightarrow> first_some f xs)"

definition greedy :: "(char \<Rightarrow> bool) \<Rightarrow> nat \<Rightarrow> string \<Rightarrow> nat list" where
  "greedy P lo s = rev [lo ..< Suc (length (takeWhile P s))]"

text \<open>\<open>$\<close> (no MULTILINE flag): the end of the string, or just before a final newline.\<close>

definition match_end :: "string \<Rightarrow> bool" where
  "match_end s \<longleftrightarrow> s = [] \<or> s = [CHR 0x0A]"

text \<open>The tail \<open>[^>]+>$\<close>, read after the opening bracket.\<close>

definition match_address :: "string \<Rightarrow> unit option" where
  "match_address r =
     first_some
       (\<lambda>n. case drop n r of
               [] \<Rightarrow> None
             | c # r' \<Rightarrow> if c = CHR ''>'' \<and> match_end r' then Some () else None)
       (greedy (\<lambda>c. c \<noteq> CHR ''>'') 1 r)"

text \<open>The middle \<open>\s*<\<close> followed by the tail, read after group 1.\<close>

definition match_bracket :: "string \<Rightarrow> unit option" where
  "match_bracket r =
     first_some
       (\<lambda>n. case drop n r of
               [] \<Rightarrow> None
             | c # r' \<Rightarrow> if c = CHR ''<'' then match_address r' else None)
       (greedy is_space 0 r)"

text \<open>\<open>re.match\<close> of the whole pattern; the result is \<open>match.group(1)\<close>, or \<open>None\<close>.\<close>

definition sender_re_match :: "string \<Rightarrow> string option" where
  "sender_re_match s =
     first_some
       (\<lambda>n. case match_bracket (drop n s) of
               None \<Rightarrow> None
             | Some u \<Rightarrow> Some (take n s))
       (greedy (\<lambda>c. c \<noteq> CHR ''<'') 1 s)"

text \<open>
  The argument is \<open>None\<close> for an absent sender. \<open>sender.split('@')[0]\<close> is the part before
  the first \<open>@\<close>.
\<close>

definition extract_sender_name :: "string option \<Rightarrow> string" where
  "extract_sender_name sender =
     (case sender of
        None \<Rightarrow> ''unknown''
      | Some s \<Rightarrow>
          if s = [] then ''unknown''
          else (case sender_re_match (strip_ws s) of
                  Some g \<Rightarrow> strip_ws g
                | None \<Rightarrow>
                    if CHR ''@'' \<in> set s \<and> CHR ''<'' \<notin> set s
                    then takeWhile (\<lambda>c. c \<noteq> CHR ''@'') s
                    else strip_ws s))"

text \<open>
  The form \<open>Display Name <address>\<close> in the words of the specification: a non-empty name
  without \<open><\<close>, then an address in angle brackets, non-empty and without \<open>>\<close>. It is
  compared with \<open>sender_re_match\<close> below.
\<close>

definition display_form :: "string \<Rightarrow> string \<Rightarrow> string \<Rightarrow> bool" where
  "display_form t name address \<longleftrightarrow>
     t = name @ ''<'' @ address @ ''>'' \<and> name \<noteq> [] \<and> CHR ''<'' \<notin> set name
     \<and> address \<noteq> [] \<and> CHR ''>'' \<notin> set address"

section \<open>\<open>generate_unique_filename\<close>\<close>

text \<open>
  A path is its list of components, and the state of the file system, as far as
  \<open>Path.exists\<close> reads it, is the list of the paths that exist. \<open>base / name\<close> appends one
  component; joining the empty name gives the base itself, as pathlib does. The names
  joined by the program are single components (\<open>sanitize_filename\<close> removes every
  separator).
\<close>

type_synonym path = "string list"

definition joinpath :: "path \<Rightarrow> string \<Rightarrow> path" where
  "joinpath base name = (if name = [] then base else base @ [name])"

text \<open>\<open>str(counter)\<close>: the decimal digits of a natural number.\<close>

definition digit_char :: "nat \<Rightarrow> char" where
  "digit_char d = ''0123456789'' ! d"

fun str_nat :: "nat \<Rightarrow> string" where
  "str_nat n = (if n < 10 then [digit_char n] else str_nat (n div 10) @ [digit_char (n mod 10)])"

declare str_nat.simps [simp del]

text \<open>
  The \<open>while True\<close> loop of lines 76-80, from the given counter on. It ends because only
  finitely many paths exist: a candidate that exists is no longer than all existing
  paths together, which bounds the number of digits of its counter.
\<close>

function probe :: "path list \<Rightarrow> path \<Rightarrow> string \<Rightarrow> string \<Rightarrow> nat \<Rightarrow> path" where
  "probe existing base_path filename extension counter =
     (let new_path = joinpath base_path (filename @ ''_'' @ str_nat counter @ extension)
      in if new_path \<notin> set existing then new_path
         else probe existing base_path filename extension (Suc counter))"
  by pat_completeness auto
termination
proof (relation "measure (\<lambda>(existing, base_path, filename, extension, counter).
                    10 ^ length (concat (concat existing)) - counter)")
  show "wf (measure (\<lambda>(existing, base_path, filename, extension, counter).
                    10 ^ length (concat (concat existing)) - counter))" by simp
next
  fix existing :: "path list" and  base_path filename extension counter new_path
  assume np: "new_path = joinpath base_path (filename @ ''_'' @ str_nat counter @ extension)"
    and ex: "\<not> new_path \<notin> set existing"
  have digits: "n < 10 ^ length (str_nat n)" for n
  proof (induction n rule: str_nat.induct)
    case (1 n)
    show ?case
    proof (cases "n < 10")
      case True
      then show ?thesis by (simp add: str_nat.simps[of n])
    next
      case False
      then have "n div 10 < 10 ^ length (str_nat (n div 10))" using 1 by simp
      then have "n < 10 * 10 ^ length (str_nat (n div 10))" by linarith
      then show ?thesis using False by (simp add: str_nat.simps[of n])
    qed
  qed
  have mem_len: "x \<in> set p \<Longrightarrow> length x \<le> length (concat p)" for x :: "'a list" and p
    by (induction p) auto
  let ?name = "filename @ ''_'' @ str_nat counter @ extension"
  have "?name \<in> set new_path" using np by (simp add: joinpath_def)
  then have "length ?name \<le> length (concat new_path)" by (rule mem_len)
  moreover have "new_path \<in> set existing" using ex by simp
  then have "length (concat new_path) \<le> length (concat (concat existing))"
  proof (induction existing)
    case Nil
    then show ?case by simp
  next
    case (Cons q qs)
    then show ?case by (cases "new_path = q") auto
  qed
  ultimately have "length (str_nat counter) \<le> length (concat (concat existing))" by simp
  then have "(10::nat) ^ length (str_nat counter) \<le> 10 ^ length (concat (concat existing))"
    by (simp add: power_increasing)
  then have "counter < 10 ^ length (concat (concat existing))"
    using digits[of counter] by linarith
  then show "((existing, base_path, filename, extension, Suc counter),
              (existing, base_path, filename, extension, counter))
             \<in> measure (\<lambda>(existing, base_path, filename, extension, counter).
                    10 ^ length (concat (concat existing)) - counter)"
    by simp
qed

declare probe.simps [simp del]

definition generate_unique_filename :: "path list \<Rightarrow> path \<Rightarrow> string \<Rightarrow> string \<Rightarrow> path" where
  "generate_unique_filename existing base_path filename extension =
     (let full_path = joinpath base_path (filename @ extension)
      in if full_path \<notin> set existing then full_path
         else probe existing base_path filename extension 1)"


text \<open>The candidate \<open>{base}_{k}{ext}\<close> of line 77.\<close>

definition candidate :: "path \<Rightarrow> string \<Rightarrow> string \<Rightarrow> nat \<Rightarrow> path" where
  "candidate base_path filename extension k =
     joinpath base_path (filename @ ''_'' @ str_nat k @ extension)"

text \<open>
  A run of allocations in one directory: \<open>process_folder\<close> creates each allocated path
  (lines 248 and 258) before it allocates the next one, so each later allocation sees the
  earlier paths as existing.
\<close>

fun allocate_all :: "path list \<Rightarrow> path \<Rightarrow> (string \<times> string) list \<Rightarrow> path list" where
  "allocate_all existing dir [] = []"
| "allocate_all existing dir ((base, ext) # rs) =
     (let p = generate_unique_filename existing dir base ext
      in p # allocate_all (p # existing) dir rs)"

section \<open>The worker count of \<open>main\<close>\<close>



section \<open>The mail item and \<open>create_email_markdown\<close>\<close>

text \<open>
  Every read of the Outlook object model may raise. The outcome of one read is a value
  or the raised exception, kept as its message (what \<open>str(e)\<close> gives).
\<close>

datatype 'a com = Val 'a | ComError string

definition bind_com :: "'a com \<Rightarrow> ('a \<Rightarrow> 'b com) \<Rightarrow> 'b com" where
  "bind_com m f = (case m of Val x \<Rightarrow> f x | ComError e \<Rightarrow> ComError e)"

text \<open>
  A COM collection read by \<open>Count\<close> and \<open>Item(i)\<close> for \<open>i = 1 .. Count\<close>: either the
  outcomes of the \<open>Item\<close> calls in order, or a collection whose \<open>Count\<close> cannot be read.
\<close>

datatype 'a collection = Collection "'a com list" | BrokenCount string

text \<open>\<open>v or d\<close> for a string \<open>v\<close> that may be \<open>None\<close>: \<open>None\<close> and the empty string are falsy.\<close>

definition or_else :: "string option \<Rightarrow> string \<Rightarrow> string" where
  "or_else v d = (case v of None \<Rightarrow> d | Some s \<Rightarrow> if s = [] then d else s)"

text \<open>
  The guarded reads of lines 143-158: \<open>x = ""; try: x = item.F or "" except Exception: pass\<close>.
\<close>

definition guarded :: "string option com \<Rightarrow> string" where
  "guarded v = (case v of Val x \<Rightarrow> or_else x [] | ComError e \<Rightarrow> [])"

definition nl :: string where
  "nl = [CHR 0x0A]"

text \<open>\<open>sep.join(xs)\<close>.\<close>

fun join :: "string \<Rightarrow> string list \<Rightarrow> string" where
  "join sep [] = []"
| "join sep [x] = x"
| "join sep (x # y # ys) = x @ sep @ join sep (y # ys)"

text \<open>
  \<open>format_email_date\<close>. The received time is absent, or a time stamp given by the two
  strings that formatting it yields, or a value whose formatting raises. The pair for the
  current time is a parameter.
\<close>

datatype received = NoTime | Time string string | BadTime

definition format_email_date :: "string \<times> string \<Rightarrow> received \<Rightarrow> string \<times> string" where
  "format_email_date now received_time =
     (case received_time of
        NoTime \<Rightarrow> now
      | Time filename_date display_date \<Rightarrow> (filename_date, display_date)
      | BadTime \<Rightarrow> (''unknown-date'', ''Unknown''))"

text \<open>\<open>html_to_markdown\<close>; the converter \<open>md\<close> of markdownify is a parameter and may raise.\<close>

definition html_to_markdown :: "(string \<Rightarrow> string com) \<Rightarrow> string \<Rightarrow> string \<Rightarrow> string" where
  "html_to_markdown md html_body plain_body =
     (if html_body \<noteq> []
      then (case md html_body of Val m \<Rightarrow> m | ComError e \<Rightarrow> plain_body)
      else plain_body)"

text \<open>\<open>format_recipients\<close>: any failure while reading the collection gives the empty string.\<close>

record recipient =
  Name :: "string option"
  Address :: "string option"

definition format_recipient :: "recipient \<Rightarrow> string" where
  "format_recipient recip =
     (let name = or_else (Name recip) (or_else (Address recip) ''Unknown'');
          address = or_else (Address recip) []
      in if address \<noteq> [] \<and> address \<noteq> name then name @ '' <'' @ address @ ''>'' else name)"

fun recipient_list :: "recipient com list \<Rightarrow> string list com" where
  "recipient_list [] = Val []"
| "recipient_list (r # rs) =
     (case r of
        ComError e \<Rightarrow> ComError e
      | Val recip \<Rightarrow>
          (case recipient_list rs of
             ComError e \<Rightarrow> ComError e
           | Val names \<Rightarrow> Val (format_recipient recip # names)))"

definition format_recipients :: "recipient collection option \<Rightarrow> string" where
  "format_recipients recipients =
     (case recipients of
        None \<Rightarrow> []
      | Some (BrokenCount e) \<Rightarrow> []
      | Some (Collection rs) \<Rightarrow>
          (case recipient_list rs of Val names \<Rightarrow> join '', '' names | ComError e \<Rightarrow> []))"

text \<open>
  An attachment: its file name, and the outcome of lines 176-184 (\<open>SaveAsFile\<close> to a
  temporary file, reading the bytes back, removing the file), which is the payload or an
  exception. A mail item: the outcome of each read the program makes.
\<close>

record attachment =
  FileName :: "string option com"
  SaveAsFile :: "string com"

record mail_item =
  Class :: "int com"
  Subject :: "string option com"
  SenderName :: "string option com"
  SenderEmailAddress :: "string option com"
  ReceivedTime :: "received com"
  Recipients :: "recipient collection option com"
  CC :: "string option com"
  HTMLBody :: "string option com"
  Body :: "string option com"
  Attachments :: "attachment collection"

text \<open>
  The loop of lines 171-184 from index \<open>i\<close> on, with the two lists built so far. It sits
  inside \<open>try: ... except Exception: pass\<close> (lines 170, 185-186): the first exception ends
  the loop, and the lists keep what was appended before.
\<close>

fun extract_attachments ::
  "nat \<Rightarrow> attachment com list \<Rightarrow> (string \<times> string) list \<times> string list
     \<Rightarrow> (string \<times> string) list \<times> string list" where
  "extract_attachments i [] (attachments, attachment_links) = (attachments, attachment_links)"
| "extract_attachments i (a # as) (attachments, attachment_links) =
     (case a of
        ComError e \<Rightarrow> (attachments, attachment_links)
      | Val att \<Rightarrow>
          (case FileName att of
             ComError e \<Rightarrow> (attachments, attachment_links)
           | Val fn \<Rightarrow>
               (let att_filename =
                      sanitize_filename_default (or_else fn (''attachment_'' @ str_nat i))
                in case SaveAsFile att of
                     ComError e \<Rightarrow> (attachments, attachment_links)
                   | Val att_data \<Rightarrow>
                       extract_attachments (Suc i) as
                         (attachments @ [(att_filename, att_data)],
                          attachment_links
                            @ [''- ['' @ att_filename @ '']('' @ att_filename @ '')'']))))"

text \<open>Lines 167-186: both lists start empty; a failing \<open>Attachments.Count\<close> leaves them so.\<close>

definition read_attachments :: "mail_item \<Rightarrow> (string \<times> string) list \<times> string list" where
  "read_attachments mail_item =
     (case Attachments mail_item of
        BrokenCount e \<Rightarrow> ([], [])
      | Collection as \<Rightarrow> extract_attachments 1 as ([], []))"

text \<open>The document of lines 188-205; \<open>table_rows\<close> are the four rows of the field table.\<close>

definition table_rows :: "string \<Rightarrow> string \<Rightarrow> string \<Rightarrow> string \<Rightarrow> string" where
  "table_rows sender to_recipients cc_recipients date_display =
     ''| **From** | '' @ sender @ '' |'' @ nl
     @ ''| **To** | '' @ to_recipients @ '' |'' @ nl
     @ ''| **CC** | '' @ cc_recipients @ '' |'' @ nl
     @ ''| **Date** | '' @ date_display @ '' |'' @ nl"

definition compose_markdown ::
  "string \<Rightarrow> string \<Rightarrow> string \<Rightarrow> string \<Rightarrow> string \<Rightarrow> string list \<Rightarrow> string \<Rightarrow> string" where
  "compose_markdown subject sender to_recipients cc_recipients date_display attachment_links body_md =
     ''# '' @ subject @ nl @ nl
     @ ''| Field | Value |'' @ nl
     @ ''|-------|-------|'' @ nl
     @ table_rows sender to_recipients cc_recipients date_display
     @ nl
     @ (if attachment_links \<noteq> []
        then ''## Attachments'' @ nl @ nl @ join nl attachment_links @ nl @ nl
        else [])
     @ ''## Content'' @ nl @ nl
     @ body_md"

text \<open>
  The result of \<open>create_email_markdown\<close>: \<open>(filename_base, md_content, attachments)\<close>.
  \<open>render_email\<close> is the body of the outer \<open>try\<close> (lines 138-207): the unguarded reads of
  the subject, the sender, the received time and the recipients raise out of it.
\<close>

type_synonym rendered = "string \<times> string \<times> (string \<times> string) list"

definition render_email ::
  "string \<times> string \<Rightarrow> (string \<Rightarrow> string com) \<Rightarrow> mail_item \<Rightarrow> rendered com" where
  "render_email now md mail_item =
     bind_com (Subject mail_item) (\<lambda>subj.
     let subject = or_else subj ''No Subject'' in
     bind_com (SenderName mail_item) (\<lambda>sender_name.
     bind_com (if or_else sender_name [] \<noteq> [] then Val (or_else sender_name [])
               else bind_com (SenderEmailAddress mail_item)
                      (\<lambda>address. Val (or_else address ''Unknown''))) (\<lambda>sender.
     bind_com (ReceivedTime mail_item) (\<lambda>received_time.
     bind_com (Recipients mail_item) (\<lambda>recipients.
     let to_recipients = format_recipients recipients;
         cc_recipients = guarded (CC mail_item);
         html_body = guarded (HTMLBody mail_item);
         plain_body = guarded (Body mail_item);
         (date_filename, date_display) = format_email_date now received_time;
         sender_name = extract_sender_name (Some sender);
         filename_base =
           sanitize_filename_default (date_filename @ ''_'' @ sender_name @ ''_'' @ subject);
         body_md = html_to_markdown md html_body plain_body;
         (attachments, attachment_links) = read_attachments mail_item;
         md_content =
           compose_markdown subject sender to_recipients cc_recipients date_display
             attachment_links body_md
     in Val (filename_base, md_content, attachments))))))"

text \<open>
  The whole function: the outer handler (lines 209-210) turns an exception of the body
  into the error document. The result type keeps the exception case, so that "never
  raises" is a statement about the function and not a convention of the model.
\<close>

definition create_email_markdown ::
  "string \<times> string \<Rightarrow> (string \<Rightarrow> string com) \<Rightarrow> mail_item \<Rightarrow> rendered com" where
  "create_email_markdown now md mail_item =
     (case render_email now md mail_item of
        Val r \<Rightarrow> Val r
      | ComError e \<Rightarrow>
          Val (''error_email'', ''# Error Processing Email'' @ nl @ nl @ ''Error: '' @ e, []))"

text \<open>
  An attachment is extracted when its \<open>Item\<close>, its file name and its payload can all be
  read; \<open>attachments_of\<close> projects the attachments out of a result.
\<close>

definition att_ok :: "attachment com \<Rightarrow> bool" where
  "att_ok a =
     (case a of
        ComError e \<Rightarrow> False
      | Val att \<Rightarrow>
          (case FileName att of
             ComError e \<Rightarrow> False
           | Val fn \<Rightarrow> (case SaveAsFile att of ComError e \<Rightarrow> False | Val d \<Rightarrow> True)))"


text \<open>Concrete inputs for the examples: a converter, a clock reading, attachments, an item.\<close>

definition md_plain :: "string \<Rightarrow> string com" where
  "md_plain html = Val html"

definition example_now :: "string \<times> string" where
  "example_now = (''2024-05-06'', ''2024-05-06 07:08:09'')"

definition example_attachment :: "string \<Rightarrow> string com \<Rightarrow> attachment com" where
  "example_attachment name data = Val \<lparr> FileName = Val (Some name), SaveAsFile = data \<rparr>"

definition example_item :: "attachment com list \<Rightarrow> mail_item" where
  "example_item as =
     \<lparr> Class = Val 43, Subject = Val (Some ''Hi''), SenderName = Val (Some ''Ann''),
       SenderEmailAddress = Val (Some ''ann@x.org''),
       ReceivedTime = Val (Time ''2024-01-02'' ''2024-01-02 03:04:05''),
       Recipients = Val None, CC = Val None, HTMLBody = Val None, Body = Val (Some ''Hello''),
       Attachments = Collection as \<rparr>"

section \<open>The file system, the tree walker and the archive session\<close>

text \<open>
  The file system as the program sees it: the directories, the files with their
  contents (the latest write first), and the paths at which the operating system refuses
  to create or write anything (permissions, path length limits, a full disk). Which
  paths are refused is a property of the environment; the program cannot change it.
\<close>

record world =
  dirs :: "path list"
  files :: "(path \<times> string) list"
  denied :: "path list"

text \<open>
  \<open>Path.exists\<close> holds for the directories and the files. The parent of a path drops its
  last component, and the ancestors of a path are its proper non-empty prefixes.
\<close>

definition existing_paths :: "world \<Rightarrow> path list" where
  "existing_paths w = dirs w @ map fst (files w)"

definition parent :: "path \<Rightarrow> path" where
  "parent p = butlast p"

definition ancestors :: "path \<Rightarrow> path list" where
  "ancestors p = map (\<lambda>n. take n p) [1 ..< length p]"

text \<open>
  \<open>path.mkdir(parents=True, exist_ok=True)\<close>: refused paths and existing files raise;
  otherwise the path and its missing ancestors become directories.
\<close>

definition mkdir_parents :: "world \<Rightarrow> path \<Rightarrow> world \<times> unit com" where
  "mkdir_parents w p =
     (if p \<in> set (denied w) then (w, ComError ''PermissionError'')
      else if p \<in> set (map fst (files w)) then (w, ComError ''FileExistsError'')
      else (w\<lparr>dirs := filter (\<lambda>q. q \<notin> set (dirs w)) (p # rev (ancestors p)) @ dirs w\<rparr>, Val ()))"

text \<open>
  \<open>path.write_text(data)\<close> and \<open>path.write_bytes(data)\<close>: they raise at a refused path, at
  a directory, and where the parent directory is missing; otherwise the file holds the
  data afterwards.
\<close>

definition write_file :: "world \<Rightarrow> path \<Rightarrow> string \<Rightarrow> world \<times> unit com" where
  "write_file w p data =
     (if p \<in> set (denied w) then (w, ComError ''PermissionError'')
      else if p \<in> set (dirs w) then (w, ComError ''IsADirectoryError'')
      else if parent p \<noteq> [] \<and> parent p \<notin> set (dirs w) then (w, ComError ''FileNotFoundError'')
      else (w\<lparr>files := (p, data) # filter (\<lambda>(q, d). q \<noteq> p) (files w)\<rparr>, Val ()))"

text \<open>
  The writing rule of \<open>process_folder\<close>, lines 246-258. The loop over the attachments stops
  at the first write that raises; what was written before stays written.
\<close>

fun write_attachments :: "world \<Rightarrow> path \<Rightarrow> (string \<times> string) list \<Rightarrow> world \<times> unit com" where
  "write_attachments w email_folder [] = (w, Val ())"
| "write_attachments w email_folder ((att_name, att_data) # rest) =
     (case write_file w (joinpath email_folder att_name) att_data of
        (w', ComError e) \<Rightarrow> (w', ComError e)
      | (w', Val u) \<Rightarrow> write_attachments w' email_folder rest)"

definition write_email :: "world \<Rightarrow> path \<Rightarrow> rendered \<Rightarrow> world \<times> unit com" where
  "write_email w output_dir r =
     (case r of (filename_base, md_content, attachments) \<Rightarrow>
        if attachments \<noteq> []
        then (let email_folder = generate_unique_filename (existing_paths w) output_dir filename_base []
              in case mkdir_parents w email_folder of
                   (w1, ComError e) \<Rightarrow> (w1, ComError e)
                 | (w1, Val u) \<Rightarrow>
                     (let md_path = joinpath email_folder (filename_base @ ''.md'')
                      in case write_file w1 md_path md_content of
                           (w2, ComError e) \<Rightarrow> (w2, ComError e)
                         | (w2, Val u) \<Rightarrow> write_attachments w2 email_folder attachments))
        else (let md_path = generate_unique_filename (existing_paths w) output_dir filename_base ''.md''
              in write_file w md_path md_content))"

text \<open>
  The collaborators of the walk: the progress bar, whose \<open>write\<close> and \<open>update\<close> may raise
  (they print to the console), the clock and the HTML converter.
\<close>

record env =
  pbar_write :: "string \<Rightarrow> unit com"
  pbar_update :: "unit com"
  clock :: "string \<times> string"
  converter :: "string \<Rightarrow> string com"

text \<open>
  One pass of the body of the inner \<open>try\<close> (lines 242-261) for the outcome of \<open>Item(i)\<close>.
  The result is the new file system, the new value of \<open>processed\<close> and whether the body
  raised. An item of another class is skipped. \<open>processed\<close> is incremented (line 260)
  before \<open>pbar.update\<close> runs (line 261).
\<close>

definition process_item ::
  "env \<Rightarrow> path \<Rightarrow> mail_item com \<Rightarrow> world \<Rightarrow> nat \<Rightarrow> world \<times> nat \<times> unit com" where
  "process_item env output_dir it w processed =
     (case it of
        ComError e \<Rightarrow> (w, processed, ComError e)
      | Val item \<Rightarrow>
          (case Class item of
             ComError e \<Rightarrow> (w, processed, ComError e)
           | Val c \<Rightarrow>
               if c = 43
               then (case create_email_markdown (clock env) (converter env) item of
                       ComError e \<Rightarrow> (w, processed, ComError e)
                     | Val r \<Rightarrow>
                         (case write_email w output_dir r of
                            (w', ComError e) \<Rightarrow> (w', processed, ComError e)
                          | (w', Val u) \<Rightarrow> (w', Suc processed, pbar_update env)))
               else (w, processed, Val ())))"

text \<open>
  The loop of lines 240-264. The handler of line 262 prints a warning and updates the
  progress bar; when one of these raises, the exception leaves the loop.
\<close>

fun process_items ::
  "env \<Rightarrow> path \<Rightarrow> mail_item com list \<Rightarrow> world \<Rightarrow> nat \<Rightarrow> world \<times> nat \<times> unit com" where
  "process_items env output_dir [] w processed = (w, processed, Val ())"
| "process_items env output_dir (it # its) w processed =
     (case process_item env output_dir it w processed of
        (w', processed', Val u) \<Rightarrow> process_items env output_dir its w' processed'
      | (w', processed', ComError e) \<Rightarrow>
          (case pbar_write env (''Warning: Failed to process item: '' @ e) of
             ComError e' \<Rightarrow> (w', processed', ComError e')
           | Val u \<Rightarrow>
               (case pbar_update env of
                  ComError e' \<Rightarrow> (w', processed', ComError e')
                | Val u \<Rightarrow> process_items env output_dir its w' processed')))"

text \<open>
  A folder: its items and its subfolders. A walk of a folder either returns the number
  of processed items, or is left by an exception; \<open>Aborted n e\<close> records the value \<open>n\<close>
  that \<open>processed\<close> had at that moment.
\<close>

datatype folder = Folder (Items: "mail_item collection") (Folders: "folder collection")

datatype walk = Done nat | Aborted nat string

text \<open>
  \<open>process_folder\<close>, lines 231-275. An exception of the items loop is caught at line 265
  and reported through \<open>pbar.write\<close>; if that raises, the exception leaves the function.
  The loop over the subfolders (lines 268-273) is left silently at the first exception,
  also when a recursive call raises, and then the count of that subfolder is lost.
\<close>

function process_folder :: "env \<Rightarrow> path \<Rightarrow> folder \<Rightarrow> world \<Rightarrow> world \<times> walk"
  and process_folders :: "env \<Rightarrow> path \<Rightarrow> folder com list \<Rightarrow> world \<Rightarrow> nat \<Rightarrow> world \<times> nat" where
  "process_folder env output_dir (Folder items subfolders) w =
     (case (case items of
              BrokenCount e \<Rightarrow> (w, 0, ComError e)
            | Collection its \<Rightarrow> process_items env output_dir its w 0) of
        (w1, processed, r) \<Rightarrow>
          (case (case r of
                   Val u \<Rightarrow> Val ()
                 | ComError e \<Rightarrow> pbar_write env (''Warning: Error accessing folder items: '' @ e)) of
             ComError e \<Rightarrow> (w1, Aborted processed e)
           | Val u \<Rightarrow>
               (case subfolders of
                  BrokenCount e \<Rightarrow> (w1, Done processed)
                | Collection fs \<Rightarrow>
                    (case process_folders env output_dir fs w1 processed of
                       (w2, processed') \<Rightarrow> (w2, Done processed')))))"
| "process_folders env output_dir [] w processed = (w, processed)"
| "process_folders env output_dir (f # fs) w processed =
     (case f of
        ComError e \<Rightarrow> (w, processed)
      | Val subfolder \<Rightarrow>
          (case process_folder env output_dir subfolder w of
             (w', Done n) \<Rightarrow> process_folders env output_dir fs w' (processed + n)
           | (w', Aborted n e) \<Rightarrow> (w', processed)))"
  by pat_completeness auto
termination
  by (relation "measure (\<lambda>x. case x of
                   Inl (env, output_dir, f, w) \<Rightarrow> size f
                 | Inr (env, output_dir, fs, w, processed) \<Rightarrow> size_list (size_com size) fs)")
     auto

text \<open>
  The Outlook session of \<open>process_pst_file\<close>: the outcome of attaching the store (lines
  294-297), the top-level folders with the resolved path of their store, and the outcomes
  of opening and closing the progress bar (the \<open>with\<close> block of lines 321-323).
  \<open>count_emails_in_folder\<close> cannot raise and only sizes the progress bar; it is left out.
\<close>

record top_folder =
  store_path :: "path com"
  root :: folder

record session =
  attach :: "unit com"
  top_folders :: "top_folder collection"
  pbar_open :: "unit com"
  pbar_close :: "unit com"

text \<open>
  Lines 299-308: the first top-level folder whose store path is the archive; a store
  path that cannot be read is skipped, an \<open>Item(i)\<close> that raises is not guarded. Lines
  310-314: otherwise the last top-level folder.
\<close>

fun find_store :: "path \<Rightarrow> top_folder com list \<Rightarrow> folder option com" where
  "find_store pst_path [] = Val None"
| "find_store pst_path (f # fs) =
     (case f of
        ComError e \<Rightarrow> ComError e
      | Val tf \<Rightarrow>
          (case store_path tf of
             Val sp \<Rightarrow> if sp = pst_path then Val (Some (root tf)) else find_store pst_path fs
           | ComError e \<Rightarrow> find_store pst_path fs))"

definition last_folder :: "top_folder com list \<Rightarrow> folder option com" where
  "last_folder fs =
     (if fs = [] then Val None
      else (case last fs of ComError e \<Rightarrow> ComError e | Val tf \<Rightarrow> Val (Some (root tf))))"

text \<open>
  The result \<open>(pst_name, processed_count, error_message)\<close>. \<open>session_body\<close> is the body of the
  \<open>try\<close> of lines 293-330, and \<open>process_pst_file\<close> the whole function: the handler of lines
  332-333 returns the count 0 with the message of the exception. Creating the output
  directory (line 291) is outside the \<open>try\<close>.
\<close>

type_synonym archive_result = "string \<times> nat \<times> string option"

definition path_name :: "path \<Rightarrow> string" where
  "path_name p = (if p = [] then [] else last p)"

definition session_body ::
  "env \<Rightarrow> session \<Rightarrow> world \<Rightarrow> path \<Rightarrow> path \<Rightarrow> world \<times> archive_result com" where
  "session_body env s w pst_path output_dir =
     (case attach s of
        ComError e \<Rightarrow> (w, ComError e)
      | Val u \<Rightarrow>
          (case top_folders s of
             BrokenCount e \<Rightarrow> (w, ComError e)
           | Collection fs \<Rightarrow>
               (case bind_com (find_store pst_path fs)
                       (\<lambda>found. case found of Some f \<Rightarrow> Val (Some f) | None \<Rightarrow> last_folder fs) of
                  ComError e \<Rightarrow> (w, ComError e)
                | Val None \<Rightarrow>
                    (w, Val (path_name pst_path, 0, Some ''Could not locate PST folder in Outlook''))
                | Val (Some pst_folder) \<Rightarrow>
                    (case pbar_open s of
                       ComError e \<Rightarrow> (w, ComError e)
                     | Val u \<Rightarrow>
                         (case process_folder env output_dir pst_folder w of
                            (w1, Aborted n e) \<Rightarrow>
                              (w1, case pbar_close s of ComError e' \<Rightarrow> ComError e' | Val u \<Rightarrow> ComError e)
                          | (w1, Done processed) \<Rightarrow>
                              (case pbar_close s of
                                 ComError e \<Rightarrow> (w1, ComError e)
                               | Val u \<Rightarrow> (w1, Val (path_name pst_path, processed, None))))))))"

definition process_pst_file ::
  "env \<Rightarrow> session \<Rightarrow> world \<Rightarrow> path \<Rightarrow> path option \<Rightarrow> world \<times> archive_result com" where
  "process_pst_file env s w pst_path output_dir =
     (if pst_path \<notin> set (existing_paths w)
      then (w, Val (path_name pst_path, 0, Some (''File not found: '' @ join ''/'' pst_path)))
      else (let out = (case output_dir of None \<Rightarrow> parent pst_path | Some d \<Rightarrow> d)
            in case mkdir_parents w out of
                 (w0, ComError e) \<Rightarrow> (w0, ComError e)
               | (w0, Val u) \<Rightarrow>
                   (case session_body env s w0 pst_path out of
                      (w1, Val r) \<Rightarrow> (w1, Val r)
                    | (w1, ComError e) \<Rightarrow> (w1, Val (path_name pst_path, 0, Some e)))))"

text \<open>
  A well-formed file system: every ancestor of an existing path is a directory.
\<close>

definition wf_world :: "world \<Rightarrow> bool" where
  "wf_world w \<longleftrightarrow> (\<forall>p\<in>set (existing_paths w). set (ancestors p) \<subseteq> set (dirs w))"

text \<open>Concrete inputs for the examples about the walk.\<close>

definition example_doc :: "string list \<Rightarrow> string" where
  "example_doc links =
     compose_markdown ''Hi'' ''Ann'' [] [] ''2024-01-02 03:04:05'' links ''Hello''"

definition example_world :: world where
  "example_world =
     \<lparr> dirs = [[''out''], [''in'']], files = [([''in'', ''mail.pst''], ''PST'')], denied = [] \<rparr>"

definition example_env :: env where
  "example_env =
     \<lparr> pbar_write = (\<lambda>message. Val ()), pbar_update = Val (),
       clock = example_now, converter = md_plain \<rparr>"

definition example_env_broken :: env where
  "example_env_broken =
     \<lparr> pbar_write = (\<lambda>message. ComError ''stream closed''), pbar_update = Val (),
       clock = example_now, converter = md_plain \<rparr>"

definition example_root :: folder where
  "example_root =
     Folder (Collection [Val (example_item []), ComError ''item unreadable'']) (Collection [])"

definition example_session :: session where
  "example_session =
     \<lparr> attach = Val (),
       top_folders = Collection [Val \<lparr> store_path = Val [''in'', ''mail.pst''], root = example_root \<rparr>],
       pbar_open = Val (), pbar_close = Val () \<rparr>"

definition example_world_denied :: world where
  "example_world_denied =
     example_world\<lparr>denied := [[''out'', ''2024-01-02_Ann_Hi'', ''a.txt'']]\<rparr>"

section \<open>Properties of \<open>sanitize_filename\<close>\<close>

lemma set_collapse: "set (collapse_underscores s) \<subseteq> set s"
  by (induction s rule: collapse_underscores.induct) auto

lemma set_lstrip: "set (lstrip cs s) \<subseteq> set s"
  unfolding lstrip_def by (auto dest: set_dropWhileD)

lemma set_rstrip: "set (rstrip cs s) \<subseteq> set s"
  unfolding rstrip_def by (auto dest: set_dropWhileD)

lemma set_strip: "set (strip cs s) \<subseteq> set s"
  unfolding strip_def using set_lstrip set_rstrip by blast

lemma set_slice_to: "set (slice_to s m) \<subseteq> set s"
  unfolding slice_to_def by (auto dest: in_set_takeD)

lemma replace_invalid_valid: "c \<in> set (replace_invalid s) \<Longrightarrow> \<not> invalid_chars c"
  unfolding replace_invalid_def by (auto simp: invalid_chars_def)

lemma unnamed_valid: "c \<in> set ''unnamed'' \<Longrightarrow> \<not> invalid_chars c"
  by (auto simp: invalid_chars_def)

lemma sanitize_filename_alt:
  "sanitize_filename name m =
     (let t = truncated (strip ''. _'' (collapse_underscores (replace_invalid name))) m
      in if t = [] then ''unnamed'' else t)"
  by (simp only: sanitize_filename_def truncated_def Let_def)

lemma set_truncated: "set (truncated s m) \<subseteq> set s"
  unfolding truncated_def using set_rstrip set_slice_to by (cases "int (length s) > m") fastforce+

lemma sanitize_valid: "c \<in> set (sanitize_filename name m) \<Longrightarrow> \<not> invalid_chars c"
proof -
  assume c: "c \<in> set (sanitize_filename name m)"
  define t where "t = truncated (strip ''. _'' (collapse_underscores (replace_invalid name))) m"
  have eq: "sanitize_filename name m = (if t = [] then ''unnamed'' else t)"
    by (simp only: sanitize_filename_alt t_def Let_def)
  have "set t \<subseteq> set (replace_invalid name)"
    unfolding t_def using set_truncated set_strip set_collapse by blast
  with c eq have "c \<in> set ''unnamed'' \<or> c \<in> set (replace_invalid name)"
    by (cases "t = []") auto
  then show ?thesis using unnamed_valid replace_invalid_valid by blast
qed

lemma length_rstrip: "length (rstrip cs s) \<le> length s"
  unfolding rstrip_def by (simp add: length_dropWhile_le order_trans[OF length_dropWhile_le])

lemma length_truncated: "0 \<le> m \<Longrightarrow> int (length (truncated s m)) \<le> m"
proof -
  assume m: "0 \<le> m"
  have "length (rstrip ''. _'' (slice_to s m)) \<le> length (slice_to s m)"
    by (rule length_rstrip)
  also have "\<dots> \<le> nat m" using m by (simp add: slice_to_def)
  finally have "int (length (rstrip ''. _'' (slice_to s m))) \<le> m" using m by linarith
  then show ?thesis by (simp add: truncated_def)
qed

lemma sanitize_length: "0 \<le> m \<Longrightarrow> int (length (sanitize_filename name m)) \<le> max m 7"
proof -
  assume m: "0 \<le> m"
  define t where "t = truncated (strip ''. _'' (collapse_underscores (replace_invalid name))) m"
  have eq: "sanitize_filename name m = (if t = [] then ''unnamed'' else t)"
    by (simp only: sanitize_filename_alt t_def Let_def)
  have "int (length t) \<le> m" unfolding t_def by (rule length_truncated[OF m])
  then show ?thesis unfolding eq by (cases "t = []") auto
qed

lemma collapse_hd: "collapse_underscores (b # cs) \<noteq> [] \<and> hd (collapse_underscores (b # cs)) = b"
  by (induction "b # cs" arbitrary: b cs rule: collapse_underscores.induct) auto

lemma no_double_collapse: "no_double (collapse_underscores s)"
proof (induction s rule: collapse_underscores.induct)
  case (1 a b cs)
  obtain r where r: "collapse_underscores (b # cs) = b # r"
    using collapse_hd[of b cs] by (cases "collapse_underscores (b # cs)") auto
  with 1 show ?case by auto
qed auto

lemma collapse_id: "no_double s \<Longrightarrow> collapse_underscores s = s"
  by (induction s rule: collapse_underscores.induct) auto

lemma no_double_tl: "no_double (a # cs) \<Longrightarrow> no_double cs"
  by (cases cs) auto

lemma no_double_append: "no_double (xs @ ys) \<Longrightarrow> no_double xs \<and> no_double ys"
proof (induction xs)
  case Nil
  then show ?case by simp
next
  case (Cons a xs)
  then have "no_double xs \<and> no_double ys" using no_double_tl[of a "xs @ ys"] by simp
  with Cons.prems show ?case by (cases xs) auto
qed

lemma rstrip_prefix: "s = rstrip cs s @ rev (takeWhile (\<lambda>c. c \<in> set cs) (rev s))"
proof -
  have "rstrip cs s @ rev (takeWhile (\<lambda>c. c \<in> set cs) (rev s))
        = rev (takeWhile (\<lambda>c. c \<in> set cs) (rev s) @ dropWhile (\<lambda>c. c \<in> set cs) (rev s))"
    by (simp only: rstrip_def rev_append)
  also have "\<dots> = rev (rev s)" by (simp only: takeWhile_dropWhile_id)
  finally show ?thesis by simp
qed

lemma lstrip_suffix: "s = takeWhile (\<lambda>c. c \<in> set cs) s @ lstrip cs s"
  by (simp add: lstrip_def)

lemma slice_to_prefix: "\<exists>r. s = slice_to s m @ r"
  unfolding slice_to_def by (metis append_take_drop_id)

lemma rstrip_last: "rstrip cs s \<noteq> [] \<Longrightarrow> last (rstrip cs s) \<notin> set cs"
  unfolding rstrip_def using hd_dropWhile[of "\<lambda>c. c \<in> set cs" "rev s"]
  by (simp add: last_rev)

lemma lstrip_hd: "lstrip cs s \<noteq> [] \<Longrightarrow> hd (lstrip cs s) \<notin> set cs"
  unfolding lstrip_def using hd_dropWhile[of "\<lambda>c. c \<in> set cs" s] by simp

lemma rstrip_hd: "rstrip cs s \<noteq> [] \<Longrightarrow> hd (rstrip cs s) = hd s"
  using rstrip_prefix[of s cs] by (metis hd_append2)

lemma lstrip_id: "s \<noteq> [] \<Longrightarrow> hd s \<notin> set cs \<Longrightarrow> lstrip cs s = s"
  by (cases s) (auto simp: lstrip_def)

lemma rstrip_id: "s \<noteq> [] \<Longrightarrow> last s \<notin> set cs \<Longrightarrow> rstrip cs s = s"
  by (cases s rule: rev_cases) (simp_all add: rstrip_def)

lemma replace_invalid_id: "\<forall>c\<in>set s. \<not> invalid_chars c \<Longrightarrow> replace_invalid s = s"
  unfolding replace_invalid_def by (induction s) auto

lemma clean_fixed: "clean s m \<Longrightarrow> sanitize_filename s m = s"
proof -
  assume c: "clean s m"
  have 1: "replace_invalid s = s" using c by (simp add: clean_def replace_invalid_id)
  have 2: "collapse_underscores s = s" using c by (simp add: clean_def collapse_id)
  have "lstrip ''. _'' s = s" using c lstrip_id unfolding clean_def by blast
  moreover have "rstrip ''. _'' s = s" using c rstrip_id unfolding clean_def by blast
  ultimately have 3: "strip ''. _'' s = s" by (simp add: strip_def)
  have 4: "truncated s m = s" using c by (simp add: truncated_def clean_def)
  have 5: "s \<noteq> []" using c by (simp add: clean_def)
  show ?thesis by (simp only: sanitize_filename_alt 1 2 3 4 Let_def 5 if_False)
qed

lemma strip_ends:
  assumes "strip cs s \<noteq> []"
  shows "hd (strip cs s) \<notin> set cs" and "last (strip cs s) \<notin> set cs"
proof -
  have ne: "rstrip cs (lstrip cs s) \<noteq> []" using assms by (simp add: strip_def)
  then have "lstrip cs s \<noteq> []" by (auto simp: rstrip_def)
  then have "hd (lstrip cs s) \<notin> set cs" by (rule lstrip_hd)
  then show "hd (strip cs s) \<notin> set cs" using rstrip_hd[OF ne] by (simp add: strip_def)
  show "last (strip cs s) \<notin> set cs" using rstrip_last[OF ne] by (simp add: strip_def)
qed

lemma no_double_strip: "no_double s \<Longrightarrow> no_double (strip cs s)"
proof -
  assume n: "no_double s"
  have "no_double (lstrip cs s)" using n lstrip_suffix[of s cs] no_double_append by metis
  then have "no_double (rstrip cs (lstrip cs s))"
    using rstrip_prefix[of "lstrip cs s" cs] no_double_append by metis
  then show ?thesis by (simp add: strip_def)
qed

lemma no_double_truncated: "no_double s \<Longrightarrow> no_double (truncated s m)"
proof -
  assume n: "no_double s"
  obtain r where "s = slice_to s m @ r" using slice_to_prefix by blast
  then have "no_double (slice_to s m)" using n no_double_append by metis
  then have "no_double (rstrip ''. _'' (slice_to s m))"
    using rstrip_prefix[of "slice_to s m" "''. _''"] no_double_append by metis
  then show ?thesis using n by (simp add: truncated_def)
qed

lemma truncated_ends:
  assumes t: "truncated s m \<noteq> []" and h: "hd s \<notin> set ''. _''" and l: "last s \<notin> set ''. _''"
  shows "hd (truncated s m) \<notin> set ''. _'' \<and> last (truncated s m) \<notin> set ''. _''"
proof (cases "int (length s) > m")
  case False
  then show ?thesis using h l by (simp add: truncated_def)
next
  case True
  then have eq: "truncated s m = rstrip ''. _'' (slice_to s m)" by (simp add: truncated_def)
  with t have ne: "rstrip ''. _'' (slice_to s m) \<noteq> []" by simp
  then have ne2: "slice_to s m \<noteq> []" by (auto simp: rstrip_def)
  obtain r where "s = slice_to s m @ r" using slice_to_prefix by blast
  then have "hd s = hd (slice_to s m)" using ne2 by (metis hd_append2)
  then have "hd (truncated s m) = hd s" using rstrip_hd[OF ne] eq by simp
  moreover have "last (truncated s m) \<notin> set ''. _''" using rstrip_last[OF ne] eq by simp
  ultimately show ?thesis using h by simp
qed

lemma unnamed_clean: "7 \<le> m \<Longrightarrow> clean ''unnamed'' m"
  by (simp add: clean_def invalid_chars_def)

lemma sanitize_clean: "7 \<le> m \<Longrightarrow> clean (sanitize_filename name m) m"
proof -
  assume m: "7 \<le> m"
  define s3 where "s3 = strip ''. _'' (collapse_underscores (replace_invalid name))"
  define t where "t = truncated s3 m"
  have eq: "sanitize_filename name m = (if t = [] then ''unnamed'' else t)"
    by (simp only: sanitize_filename_alt t_def s3_def Let_def)
  show ?thesis
  proof (cases "t = []")
    case True
    then show ?thesis using eq unnamed_clean[OF m] by simp
  next
    case False
    then have r: "sanitize_filename name m = t" using eq by simp
    have v: "\<forall>c\<in>set t. \<not> invalid_chars c" using sanitize_valid[of _ name m] r by simp
    have "no_double s3" unfolding s3_def by (rule no_double_strip[OF no_double_collapse])
    then have nd: "no_double t" unfolding t_def by (rule no_double_truncated)
    have s3ne: "s3 \<noteq> []" using False unfolding t_def truncated_def rstrip_def slice_to_def
      by (auto split: if_splits)
    have "hd s3 \<notin> set ''. _''" "last s3 \<notin> set ''. _''"
      using strip_ends[of "''. _''" "collapse_underscores (replace_invalid name)"] s3ne
      unfolding s3_def by blast+
    then have e: "hd t \<notin> set ''. _'' \<and> last t \<notin> set ''. _''"
      using truncated_ends[of s3 m] False unfolding t_def by blast
    have len: "int (length t) \<le> m" unfolding t_def using length_truncated[of m s3] m by simp
    show ?thesis unfolding r clean_def using v nd False e len by blast
  qed
qed


text \<open>
  C7 (as amended). For every input string and every \<open>max_length\<close>, the result of
  \<open>sanitize_filename\<close> contains no character of the forbidden class and is never empty.
  Its length is at most \<open>max_length\<close> whenever \<open>max_length\<close> is at least 7, the length
  of the placeholder \<open>unnamed\<close> (so in particular at the default 100); for a non-negative
  \<open>max_length\<close> below 7 the length is at most 7.
\<close>

theorem sanitize_filename_safe:
  "(\<forall>c\<in>set (sanitize_filename name max_length). \<not> invalid_chars c)
   \<and> sanitize_filename name max_length \<noteq> []
   \<and> (7 \<le> max_length \<longrightarrow> int (length (sanitize_filename name max_length)) \<le> max_length)
   \<and> (0 \<le> max_length \<longrightarrow> int (length (sanitize_filename name max_length)) \<le> max max_length 7)"
proof -
  have ne: "sanitize_filename name max_length \<noteq> []"
    by (simp only: sanitize_filename_alt Let_def split: if_split) simp
  have len: "0 \<le> max_length \<Longrightarrow> int (length (sanitize_filename name max_length)) \<le> max max_length 7"
    by (rule sanitize_length)
  then have "7 \<le> max_length \<Longrightarrow> int (length (sanitize_filename name max_length)) \<le> max_length"
    by fastforce
  with ne len sanitize_valid show ?thesis by blast
qed

theorem sanitize_filename_safe_witness:
  "sanitize_filename ''a<b>__c:..'' 100 = ''a_b_c''
   \<and> \<not> invalid_chars (CHR ''a'') \<and> \<not> invalid_chars (CHR ''_'')
   \<and> (7::int) \<le> 100 \<and> (0::int) \<le> 100
   \<and> int (length (sanitize_filename ''a<b>__c:..'' 100)) \<le> 100"
proof -
  have "sanitize_filename ''a<b>__c:..'' 100 = ''a_b_c''"
    by (simp add: sanitize_filename_def replace_invalid_def invalid_chars_def strip_def
          lstrip_def rstrip_def slice_to_def)
  then show ?thesis using sanitize_filename_safe[of "''a<b>__c:..''" 100] by simp
qed

text \<open>
  The claim as first stated (length at most \<open>max_length\<close> for every \<open>max_length\<close>) fails:
  with \<open>max_length = 3\<close> the empty name yields the seven-character placeholder.
\<close>

theorem sanitize_filename_length_counterexample:
  "sanitize_filename '''' 3 = ''unnamed'' \<and> \<not> int (length (sanitize_filename '''' 3)) \<le> 3"
  by (simp add: sanitize_filename_def replace_invalid_def strip_def lstrip_def rstrip_def
        slice_to_def)

text \<open>
  C8. The sanitizer is idempotent at the default \<open>max_length\<close>: sanitizing a sanitized
  name returns it unchanged.
\<close>

theorem sanitize_filename_idempotent:
  "sanitize_filename_default (sanitize_filename_default x) = sanitize_filename_default x"
  unfolding sanitize_filename_default_def by (rule clean_fixed[OF sanitize_clean]) simp

section \<open>Properties of \<open>extract_sender_name\<close>\<close>

lemma first_some_None: "first_some f xs = None \<longleftrightarrow> (\<forall>x\<in>set xs. f x = None)"
  by (induction xs) (auto split: option.splits)

lemma first_some_Some: "first_some f xs = Some y \<Longrightarrow> \<exists>x\<in>set xs. f x = Some y"
  by (induction xs) (auto split: option.splits)

lemma set_greedy: "set (greedy P lo s) = {n. lo \<le> n \<and> n \<le> length (takeWhile P s)}"
  by (auto simp: greedy_def)

lemma take_takeWhile: "n \<le> length (takeWhile P s) \<Longrightarrow> \<forall>c\<in>set (take n s). P c"
proof -
  assume n: "n \<le> length (takeWhile P s)"
  have "take n s = take n (takeWhile P s @ dropWhile P s)" by simp
  also have "\<dots> = take n (takeWhile P s)" using n by (simp only: take_append) simp
  finally have "set (take n s) \<subseteq> set (takeWhile P s)" by (metis set_take_subset)
  then show ?thesis by (auto dest: set_takeWhileD)
qed

lemma takeWhile_stop: "\<forall>c\<in>set xs. P c \<Longrightarrow> \<not> P y \<Longrightarrow> takeWhile P (xs @ y # ys) = xs"
  by (induction xs) auto

lemma match_address_iff:
  "match_address r \<noteq> None \<longleftrightarrow>
     (\<exists>addr e. r = addr @ CHR ''>'' # e \<and> addr \<noteq> [] \<and> CHR ''>'' \<notin> set addr \<and> match_end e)"
proof
  assume "match_address r \<noteq> None"
  then obtain n where n: "1 \<le> n" "n \<le> length (takeWhile (\<lambda>c. c \<noteq> CHR ''>'') r)"
    and f: "(case drop n r of [] \<Rightarrow> None
             | c # r' \<Rightarrow> if c = CHR ''>'' \<and> match_end r' then Some () else None) \<noteq> None"
    unfolding match_address_def first_some_None set_greedy by auto
  from f obtain e where e: "drop n r = CHR ''>'' # e" "match_end e"
    by (auto split: list.splits if_splits)
  have r: "r = take n r @ CHR ''>'' # e" using e(1) by (metis append_take_drop_id)
  have "take n r \<noteq> []" using n(1) e(1) by (cases r) auto
  moreover have "CHR ''>'' \<notin> set (take n r)" using take_takeWhile[OF n(2)] by auto
  ultimately show "\<exists>addr e. r = addr @ CHR ''>'' # e \<and> addr \<noteq> [] \<and> CHR ''>'' \<notin> set addr \<and> match_end e"
    using r e(2) by blast
next
  assume "\<exists>addr e. r = addr @ CHR ''>'' # e \<and> addr \<noteq> [] \<and> CHR ''>'' \<notin> set addr \<and> match_end e"
  then obtain addr e where r: "r = addr @ CHR ''>'' # e" and a: "addr \<noteq> []" "CHR ''>'' \<notin> set addr"
    and e: "match_end e" by blast
  have tw: "takeWhile (\<lambda>c. c \<noteq> CHR ''>'') r = addr"
    unfolding r using a(2) by (intro takeWhile_stop) auto
  have mem: "length addr \<in> set (greedy (\<lambda>c. c \<noteq> CHR ''>'') 1 r)"
    unfolding set_greedy tw using a(1) by (cases addr) auto
  have "drop (length addr) r = CHR ''>'' # e" unfolding r by simp
  then have "(case drop (length addr) r of [] \<Rightarrow> None
             | c # r' \<Rightarrow> if c = CHR ''>'' \<and> match_end r' then Some () else None) = Some ()"
    using e by simp
  then show "match_address r \<noteq> None"
    unfolding match_address_def first_some_None using mem by force
qed

lemma not_space_lt: "\<not> is_space (CHR ''<'')"
  by (simp add: is_space_def)

lemma match_bracket_iff:
  "match_bracket r \<noteq> None \<longleftrightarrow>
     (\<exists>ws r'. r = ws @ CHR ''<'' # r' \<and> (\<forall>c\<in>set ws. is_space c) \<and> match_address r' \<noteq> None)"
proof
  assume "match_bracket r \<noteq> None"
  then obtain n where n: "n \<le> length (takeWhile is_space r)"
    and f: "(case drop n r of [] \<Rightarrow> None
             | c # r' \<Rightarrow> if c = CHR ''<'' then match_address r' else None) \<noteq> None"
    unfolding match_bracket_def first_some_None set_greedy by auto
  from f obtain r' where e: "drop n r = CHR ''<'' # r'" "match_address r' \<noteq> None"
    by (auto split: list.splits if_splits)
  have r: "r = take n r @ CHR ''<'' # r'" using e(1) by (metis append_take_drop_id)
  then show "\<exists>ws r'. r = ws @ CHR ''<'' # r' \<and> (\<forall>c\<in>set ws. is_space c) \<and> match_address r' \<noteq> None"
    using take_takeWhile[OF n] e(2) by blast
next
  assume "\<exists>ws r'. r = ws @ CHR ''<'' # r' \<and> (\<forall>c\<in>set ws. is_space c) \<and> match_address r' \<noteq> None"
  then obtain ws r' where r: "r = ws @ CHR ''<'' # r'" and w: "\<forall>c\<in>set ws. is_space c"
    and m: "match_address r' \<noteq> None" by blast
  have tw: "takeWhile is_space r = ws"
    unfolding r using w not_space_lt by (intro takeWhile_stop) auto
  have mem: "length ws \<in> set (greedy is_space 0 r)"
    unfolding set_greedy tw by simp
  have "drop (length ws) r = CHR ''<'' # r'" unfolding r by simp
  then have "(case drop (length ws) r of [] \<Rightarrow> None
             | c # r' \<Rightarrow> if c = CHR ''<'' then match_address r' else None) \<noteq> None"
    using m by simp
  then have "\<exists>n\<in>set (greedy is_space 0 r).
       (case drop n r of [] \<Rightarrow> None
        | c # r' \<Rightarrow> if c = CHR ''<'' then match_address r' else None) \<noteq> None"
    using mem by (rule bexI)
  then show "match_bracket r \<noteq> None"
    unfolding match_bracket_def first_some_None by simp
qed

lemma sender_re_match_longest:
  assumes s: "s = g @ CHR ''<'' # r'" and g: "g \<noteq> []" "CHR ''<'' \<notin> set g"
    and m: "match_address r' \<noteq> None"
  shows "sender_re_match s = Some g"
proof -
  have tw: "takeWhile (\<lambda>c. c \<noteq> CHR ''<'') s = g"
    unfolding s using g(2) by (intro takeWhile_stop) auto
  have "0 < length g" using g(1) by simp
  then have "[1..<Suc (length g)] = [1..<length g] @ [length g]"
    by (simp add: Suc_le_eq)
  then have gr: "greedy (\<lambda>c. c \<noteq> CHR ''<'') 1 s = length g # rev [1..<length g]"
    unfolding greedy_def tw by simp
  have d: "drop (length g) s = CHR ''<'' # r'" "take (length g) s = g" unfolding s by simp_all
  have "match_bracket (CHR ''<'' # r') \<noteq> None"
    unfolding match_bracket_iff using m by (intro exI[of _ "[]"] exI[of _ r']) simp
  then obtain u where "match_bracket (CHR ''<'' # r') = Some u" by blast
  then show ?thesis unfolding sender_re_match_def gr by (simp add: d)
qed

lemma sender_re_match_iff:
  "sender_re_match s = Some g \<longleftrightarrow>
     (\<exists>addr e. s = g @ CHR ''<'' # addr @ CHR ''>'' # e \<and> g \<noteq> [] \<and> CHR ''<'' \<notin> set g
        \<and> addr \<noteq> [] \<and> CHR ''>'' \<notin> set addr \<and> match_end e)"
proof
  assume a: "sender_re_match s = Some g"
  then obtain n where n: "1 \<le> n" "n \<le> length (takeWhile (\<lambda>c. c \<noteq> CHR ''<'') s)"
    and f: "(case match_bracket (drop n s) of None \<Rightarrow> None | Some u \<Rightarrow> Some (take n s)) = Some g"
    unfolding sender_re_match_def using first_some_Some[OF a[unfolded sender_re_match_def]]
    unfolding set_greedy by auto
  from f have mb: "match_bracket (drop n s) \<noteq> None" by (auto split: option.splits)
  then obtain ws r' where d: "drop n s = ws @ CHR ''<'' # r'" and w: "\<forall>c\<in>set ws. is_space c"
    and m: "match_address r' \<noteq> None" unfolding match_bracket_iff by blast
  have s: "s = (take n s @ ws) @ CHR ''<'' # r'" using d by (metis append_take_drop_id append_assoc)
  have ne: "take n s @ ws \<noteq> []" using n(1) d by (cases s) auto
  have nl: "CHR ''<'' \<notin> set (take n s @ ws)"
    using take_takeWhile[OF n(2)] w not_space_lt by auto
  have "sender_re_match s = Some (take n s @ ws)"
    by (rule sender_re_match_longest[OF s ne nl m])
  with a have g: "g = take n s @ ws" by simp
  from m obtain addr e where "r' = addr @ CHR ''>'' # e" "addr \<noteq> []" "CHR ''>'' \<notin> set addr" "match_end e"
    unfolding match_address_iff by blast
  then show "\<exists>addr e. s = g @ CHR ''<'' # addr @ CHR ''>'' # e \<and> g \<noteq> [] \<and> CHR ''<'' \<notin> set g
        \<and> addr \<noteq> [] \<and> CHR ''>'' \<notin> set addr \<and> match_end e"
    using s ne nl unfolding g by blast
next
  assume "\<exists>addr e. s = g @ CHR ''<'' # addr @ CHR ''>'' # e \<and> g \<noteq> [] \<and> CHR ''<'' \<notin> set g
        \<and> addr \<noteq> [] \<and> CHR ''>'' \<notin> set addr \<and> match_end e"
  then obtain addr e where s: "s = g @ CHR ''<'' # addr @ CHR ''>'' # e" and g: "g \<noteq> []" "CHR ''<'' \<notin> set g"
    and ad: "addr \<noteq> []" "CHR ''>'' \<notin> set addr" "match_end e" by blast
  have "match_address (addr @ CHR ''>'' # e) \<noteq> None"
    unfolding match_address_iff using ad by blast
  then show "sender_re_match s = Some g"
    using sender_re_match_longest[OF s g] by simp
qed

lemma set_strip_ws: "set (strip_ws s) \<subseteq> set s"
  unfolding strip_ws_def by (auto dest!: set_dropWhileD)

lemma strip_ws_last: "strip_ws s \<noteq> [] \<Longrightarrow> \<not> is_space (last (strip_ws s))"
  unfolding strip_ws_def using hd_dropWhile[of is_space "rev (dropWhile is_space s)"]
  by (simp add: last_rev)

lemma newline_space: "is_space (CHR 0x0A)"
  by (simp add: is_space_def)

lemma display_form_lt: "display_form t name address \<Longrightarrow> CHR ''<'' \<in> set t"
  by (simp add: display_form_def)

lemma display_form_match: "display_form t name address \<Longrightarrow> sender_re_match t = Some name"
  unfolding sender_re_match_iff display_form_def match_end_def
  by (intro exI[of _ address] exI[of _ "[]"]) simp

lemma match_display_form:
  assumes "sender_re_match (strip_ws s) = Some g"
  shows "\<exists>address. display_form (strip_ws s) g address"
proof -
  from assms obtain addr e where t: "strip_ws s = g @ CHR ''<'' # addr @ CHR ''>'' # e"
    and g: "g \<noteq> []" "CHR ''<'' \<notin> set g" and a: "addr \<noteq> []" "CHR ''>'' \<notin> set addr"
    and e: "match_end e" unfolding sender_re_match_iff by blast
  have "e = []"
  proof (rule ccontr)
    assume "e \<noteq> []"
    then have e': "e = [CHR 0x0A]" using e by (simp add: match_end_def)
    have "last (strip_ws s) = CHR 0x0A" unfolding t e' by simp
    moreover have "strip_ws s \<noteq> []" unfolding t by simp
    ultimately show False using strip_ws_last[of s] newline_space by simp
  qed
  then have "display_form (strip_ws s) g addr" using t g a by (simp add: display_form_def)
  then show ?thesis ..
qed

lemma no_display_form_no_match:
  assumes "\<forall>n a. \<not> display_form (strip_ws s) n a"
  shows "sender_re_match (strip_ws s) = None"
proof (cases "sender_re_match (strip_ws s)")
  case None
  then show ?thesis .
next
  case (Some g)
  then show ?thesis using match_display_form[OF Some] assms by blast
qed

lemma no_bracket_no_display_form:
  "CHR ''<'' \<notin> set s \<Longrightarrow> \<forall>n a. \<not> display_form (strip_ws s) n a"
  using display_form_lt set_strip_ws by blast

lemma sender_display_name:
  "s \<noteq> [] \<Longrightarrow> display_form (strip_ws s) name address \<Longrightarrow>
     extract_sender_name (Some s) = strip_ws name"
  using display_form_match[of "strip_ws s" name address] by (simp add: extract_sender_name_def)

lemma sender_local_part:
  "s \<noteq> [] \<Longrightarrow> CHR ''@'' \<in> set s \<Longrightarrow> CHR ''<'' \<notin> set s \<Longrightarrow>
     extract_sender_name (Some s) = takeWhile (\<lambda>c. c \<noteq> CHR ''@'') s"
  using no_display_form_no_match[OF no_bracket_no_display_form, of s]
  by (simp add: extract_sender_name_def)

lemma sender_trimmed:
  "s \<noteq> [] \<Longrightarrow> \<forall>n a. \<not> display_form (strip_ws s) n a \<Longrightarrow>
     \<not> (CHR ''@'' \<in> set s \<and> CHR ''<'' \<notin> set s) \<Longrightarrow>
     extract_sender_name (Some s) = strip_ws s"
  using no_display_form_no_match[of s] by (auto simp: extract_sender_name_def)

text \<open>
  C5 (as amended). \<open>extract_sender_name\<close> returns the placeholder \<open>unknown\<close> for an absent
  or empty sender. For a non-empty sender: when the trimmed string has the form
  \<open>Display Name <address>\<close> it returns the display name, trimmed; when the string contains
  \<open>@\<close> and no \<open><\<close> it returns the part before the first \<open>@\<close> (whether or not a \<open>>\<close>
  occurs); otherwise it returns the trimmed input. So \<open>Name <a@b.com>\<close> yields \<open>Name\<close>,
  \<open>a@b.com\<close> yields \<open>a\<close> and \<open>Plain Name\<close> yields \<open>Plain Name\<close>.
\<close>

theorem extract_sender_name_cases:
  "extract_sender_name None = ''unknown''
   \<and> extract_sender_name (Some []) = ''unknown''
   \<and> (s \<noteq> [] \<longrightarrow> display_form (strip_ws s) name address \<longrightarrow>
         extract_sender_name (Some s) = strip_ws name)
   \<and> (s \<noteq> [] \<longrightarrow> CHR ''@'' \<in> set s \<longrightarrow> CHR ''<'' \<notin> set s \<longrightarrow>
         extract_sender_name (Some s) = takeWhile (\<lambda>c. c \<noteq> CHR ''@'') s)
   \<and> (s \<noteq> [] \<longrightarrow> (\<forall>n a. \<not> display_form (strip_ws s) n a) \<longrightarrow>
         \<not> (CHR ''@'' \<in> set s \<and> CHR ''<'' \<notin> set s) \<longrightarrow>
         extract_sender_name (Some s) = strip_ws s)
   \<and> extract_sender_name (Some ''Name <a@b.com>'') = ''Name''
   \<and> extract_sender_name (Some ''a@b.com'') = ''a''
   \<and> extract_sender_name (Some ''Plain Name'') = ''Plain Name''"
proof -
  have 1: "extract_sender_name None = ''unknown''" "extract_sender_name (Some []) = ''unknown''"
    by (simp_all add: extract_sender_name_def)
  have sw: "strip_ws ''Name <a@b.com>'' = ''Name <a@b.com>''" "strip_ws ''Name '' = ''Name''"
    "strip_ws ''Plain Name'' = ''Plain Name''"
    by (simp_all add: strip_ws_def is_space_def)
  have "display_form (strip_ws ''Name <a@b.com>'') ''Name '' ''a@b.com''"
    unfolding sw by (simp add: display_form_def)
  from sender_display_name[OF _ this]
  have 5: "extract_sender_name (Some ''Name <a@b.com>'') = ''Name''"
    by (simp add: sw)
  have 6: "extract_sender_name (Some ''a@b.com'') = ''a''"
    by (subst sender_local_part) simp_all
  have "\<forall>n a. \<not> display_form (strip_ws ''Plain Name'') n a"
    by (rule no_bracket_no_display_form) simp
  from sender_trimmed[OF _ this]
  have 7: "extract_sender_name (Some ''Plain Name'') = ''Plain Name''"
    by (simp add: sw)
  show ?thesis
    using 1 5 6 7 sender_display_name[of s name address] sender_local_part[of s]
      sender_trimmed[of s]
    by blast
qed

theorem extract_sender_name_cases_witness:
  "display_form (strip_ws ''The Neuron <n@x.org>'') ''The Neuron '' ''n@x.org''
   \<and> extract_sender_name (Some ''The Neuron <n@x.org>'') = ''The Neuron''
   \<and> extract_sender_name (Some ''john.doe@example.com'') = ''john.doe''
   \<and> extract_sender_name (Some '' John Doe '') = ''John Doe''"
proof -
  have sw: "strip_ws ''The Neuron <n@x.org>'' = ''The Neuron <n@x.org>''"
    "strip_ws ''The Neuron '' = ''The Neuron''" "strip_ws '' John Doe '' = ''John Doe''"
    by (simp_all add: strip_ws_def is_space_def)
  have d: "display_form (strip_ws ''The Neuron <n@x.org>'') ''The Neuron '' ''n@x.org''"
    unfolding sw by (simp add: display_form_def)
  have n: "\<forall>n a. \<not> display_form (strip_ws '' John Doe '') n a"
    by (rule no_bracket_no_display_form) simp
  show ?thesis
    using extract_sender_name_cases[of "''The Neuron <n@x.org>''" "''The Neuron ''" "''n@x.org''"]
      extract_sender_name_cases[of "''john.doe@example.com''"]
      extract_sender_name_cases[of "'' John Doe ''"] d n
    by (simp add: sw)
qed

text \<open>
  The claim as first stated takes the local part only when the string has no angle
  bracket at all, and the trimmed input otherwise. The code looks for \<open><\<close> only: a sender
  with \<open>@\<close> and a lone \<open>>\<close> yields the part before \<open>@\<close>, not the trimmed input.
\<close>

theorem extract_sender_name_bracket_counterexample:
  "CHR ''@'' \<in> set ''a@b>'' \<and> CHR ''>'' \<in> set ''a@b>''
   \<and> extract_sender_name (Some ''a@b>'') = ''a''
   \<and> strip_ws ''a@b>'' = ''a@b>''
   \<and> extract_sender_name (Some ''a@b>'') \<noteq> strip_ws ''a@b>''"
proof -
  have "extract_sender_name (Some ''a@b>'') = takeWhile (\<lambda>c. c \<noteq> CHR ''@'') ''a@b>''"
    by (rule sender_local_part) simp_all
  then show ?thesis by (simp add: strip_ws_def is_space_def)
qed

section \<open>Properties of \<open>generate_unique_filename\<close>\<close>

lemma probe_unfold:
  "probe existing b f e c =
     (if candidate b f e c \<notin> set existing then candidate b f e c
      else probe existing b f e (Suc c))"
  by (subst probe.simps) (simp only: candidate_def Let_def)

lemma probe_least:
  "\<exists>k\<ge>c. probe existing b f e c = candidate b f e k \<and> candidate b f e k \<notin> set existing
       \<and> (\<forall>j. c \<le> j \<and> j < k \<longrightarrow> candidate b f e j \<in> set existing)"
proof (induction existing b f e c rule: probe.induct)
  case (1 existing b f e c)
  show ?case
  proof (cases "candidate b f e c \<notin> set existing")
    case True
    then have "probe existing b f e c = candidate b f e c" by (subst probe_unfold) simp
    with True show ?thesis by (intro exI[of _ c]) auto
  next
    case False
    then have eq: "probe existing b f e c = probe existing b f e (Suc c)"
      by (subst probe_unfold) simp
    have "\<not> joinpath b (f @ ''_'' @ str_nat c @ e) \<notin> set existing"
      using False by (simp add: candidate_def)
    from 1[OF refl this] obtain k where k: "Suc c \<le> k"
      "probe existing b f e (Suc c) = candidate b f e k" "candidate b f e k \<notin> set existing"
      "\<forall>j. Suc c \<le> j \<and> j < k \<longrightarrow> candidate b f e j \<in> set existing" by blast
    have "\<forall>j. c \<le> j \<and> j < k \<longrightarrow> candidate b f e j \<in> set existing"
    proof (intro allI impI)
      fix j assume "c \<le> j \<and> j < k"
      then show "candidate b f e j \<in> set existing" using k(4) False by (cases "j = c") auto
    qed
    with k eq show ?thesis by (intro exI[of _ k]) auto
  qed
qed

lemma guf_fresh: "generate_unique_filename existing b f e \<notin> set existing"
proof (cases "joinpath b (f @ e) \<notin> set existing")
  case True
  then show ?thesis by (simp add: generate_unique_filename_def)
next
  case False
  then have "generate_unique_filename existing b f e = probe existing b f e 1"
    by (simp add: generate_unique_filename_def)
  then show ?thesis using probe_least[of 1 existing b f e] by auto
qed

lemma allocate_all_fresh:
  "distinct (allocate_all existing dir rs) \<and> set (allocate_all existing dir rs) \<inter> set existing = {}"
proof (induction rs arbitrary: existing)
  case Nil
  then show ?case by simp
next
  case (Cons r rs)
  obtain base ext where r: "r = (base, ext)" by (cases r)
  define p where "p = generate_unique_filename existing dir base ext"
  have eq: "allocate_all existing dir (r # rs) = p # allocate_all (p # existing) dir rs"
    by (simp add: r p_def Let_def)
  have ih: "distinct (allocate_all (p # existing) dir rs)"
    "set (allocate_all (p # existing) dir rs) \<inter> set (p # existing) = {}"
    using Cons.IH[of "p # existing"] by auto
  have "p \<notin> set existing" unfolding p_def by (rule guf_fresh)
  with ih show ?case unfolding eq by auto
qed

text \<open>
  C6. For every list of existing paths, directory, base name and extension,
  \<open>generate_unique_filename\<close> returns \<open>{dir}/{base}{ext}\<close> when that path does not exist,
  and otherwise the first of \<open>{dir}/{base}_1{ext}\<close>, \<open>{dir}/{base}_2{ext}\<close>, ... (in
  increasing order of the counter) that does not exist. In a directory holding \<open>x.md\<close>,
  base \<open>x\<close> with extension \<open>.md\<close> yields \<open>x_1.md\<close>, and once that exists too, \<open>x_2.md\<close>.
  The result never exists beforehand, so the paths allocated in one run are pairwise
  distinct and distinct from every path that existed before the run.
\<close>

theorem generate_unique_filename_first_free: 
  "generate_unique_filename existing dir base ext \<notin> set existing
   \<and> (joinpath dir (base @ ext) \<notin> set existing \<longrightarrow>
        generate_unique_filename existing dir base ext = joinpath dir (base @ ext))
   \<and> (joinpath dir (base @ ext) \<in> set existing \<longrightarrow>
        (\<exists>k\<ge>1. generate_unique_filename existing dir base ext
                 = joinpath dir (base @ ''_'' @ str_nat k @ ext)
              \<and> (\<forall>j. 1 \<le> j \<and> j < k \<longrightarrow>
                     joinpath dir (base @ ''_'' @ str_nat j @ ext) \<in> set existing)))
   \<and> generate_unique_filename [dir @ [''x.md'']] dir ''x'' ''.md'' = dir @ [''x_1.md'']
   \<and> generate_unique_filename [dir @ [''x_1.md''], dir @ [''x.md'']] dir ''x'' ''.md''
        = dir @ [''x_2.md'']
   \<and> distinct (allocate_all existing dir rs)
   \<and> set (allocate_all existing dir rs) \<inter> set existing = {}"
proof -
  have a: "joinpath dir (base @ ext) \<notin> set existing \<Longrightarrow>
        generate_unique_filename existing dir base ext = joinpath dir (base @ ext)"
    by (simp add: generate_unique_filename_def)
  have b: "\<exists>k\<ge>1. generate_unique_filename existing dir base ext
                 = joinpath dir (base @ ''_'' @ str_nat k @ ext)
              \<and> (\<forall>j. 1 \<le> j \<and> j < k \<longrightarrow>
                     joinpath dir (base @ ''_'' @ str_nat j @ ext) \<in> set existing)"
    if "joinpath dir (base @ ext) \<in> set existing"
  proof -
    have "generate_unique_filename existing dir base ext = probe existing dir base ext 1"
      using that by (simp add: generate_unique_filename_def)
    then show ?thesis using probe_least[of 1 existing dir base ext]
      unfolding candidate_def by auto
  qed
  have s1: "str_nat (Suc 0) = ''1''" "str_nat (Suc (Suc 0)) = ''2''"
    by (subst str_nat.simps, simp add: digit_char_def)+
  have c: "generate_unique_filename [dir @ [''x.md'']] dir ''x'' ''.md'' = dir @ [''x_1.md'']"
    by (simp add: generate_unique_filename_def joinpath_def probe_unfold[of _ _ _ _ "Suc 0"]
          candidate_def s1)
  have d: "generate_unique_filename [dir @ [''x_1.md''], dir @ [''x.md'']] dir ''x'' ''.md''
        = dir @ [''x_2.md'']"
    by (simp add: generate_unique_filename_def joinpath_def probe_unfold[of _ _ _ _ "Suc 0"]
          probe_unfold[of _ _ _ _ "Suc (Suc 0)"] candidate_def s1)
  show ?thesis using a b c d guf_fresh allocate_all_fresh by blast
qed

theorem generate_unique_filename_first_free_witness:
  "[''out'', ''x.md''] \<in> set [[''out'', ''x.md'']]
   \<and> generate_unique_filename [[''out'', ''x.md'']] [''out''] ''x'' ''.md'' = [''out'', ''x_1.md'']
   \<and> [''out'', ''x_1.md''] \<notin> set [[''out'', ''x.md'']]"
  using generate_unique_filename_first_free[of "[[''out'', ''x.md'']]" "[''out'']" "''x''" "''.md''" "[]"]
  by (simp add: joinpath_def)

section \<open>Properties of the worker count\<close>




section \<open>Properties of \<open>create_email_markdown\<close>\<close>



lemma extract_stop:
  assumes "\<not> att_ok bad"
  shows "extract_attachments i (bad # rest) acc = acc"
proof -
  obtain atts links where acc: "acc = (atts, links)" by (cases acc)
  show ?thesis
  proof (cases bad)
    case (ComError e)
    then show ?thesis by (simp add: acc)
  next
    case (Val att)
    show ?thesis
    proof (cases "FileName att")
      case (ComError e)
      then show ?thesis using Val by (simp add: acc)
    next
      case fn: (Val fn)
      show ?thesis
      proof (cases "SaveAsFile att")
        case (ComError e)
        then show ?thesis using Val fn by (simp add: acc Let_def)
      next
        case d: (Val d)
        then show ?thesis using assms Val fn by (simp add: att_ok_def)
      qed
    qed
  qed
qed



lemma render_email_attachments:
  assumes "render_email now md mail_item = Val (filename_base, md_content, attachments)"
  shows "attachments = fst (read_attachments mail_item)"
  using assms unfolding render_email_def bind_com_def Let_def
  by (auto split: com.splits if_splits prod.splits)



lemma sanitize_a: "sanitize_filename_default ''a.txt'' = ''a.txt''"
  by (simp add: sanitize_filename_default_def sanitize_filename_def replace_invalid_def
      invalid_chars_def strip_def lstrip_def rstrip_def slice_to_def)





section \<open>Properties of the tree walker\<close>

lemma sanitize_nonempty: "sanitize_filename_default x \<noteq> []"
  unfolding sanitize_filename_default_def
  by (simp only: sanitize_filename_alt Let_def split: if_split) simp

lemma extract_names_nonempty:
  "\<forall>x\<in>set atts. fst x \<noteq> [] \<Longrightarrow>
     \<forall>x\<in>set (fst (extract_attachments i as (atts, links))). fst x \<noteq> []"
proof (induction as arbitrary: i atts links)
  case Nil
  then show ?case by simp
next
  case (Cons a as)
  show ?case
  proof (cases "att_ok a")
    case False
    then show ?thesis using extract_stop[OF False, of i as "(atts, links)"] Cons.prems by simp
  next
    case True
    then obtain att fn d where a: "a = Val att" "FileName att = Val fn" "SaveAsFile att = Val d"
      by (auto simp: att_ok_def split: com.splits)
    define nm where "nm = sanitize_filename_default (or_else fn (''attachment_'' @ str_nat i))"
    have eq: "extract_attachments i (a # as) (atts, links)
              = extract_attachments (Suc i) as
                  (atts @ [(nm, d)], links @ [''- ['' @ nm @ '']('' @ nm @ '')''])"
      using a by (simp add: Let_def nm_def)
    have "\<forall>x\<in>set (atts @ [(nm, d)]). fst x \<noteq> []"
      using Cons.prems sanitize_nonempty by (simp add: nm_def)
    then show ?thesis unfolding eq by (rule Cons.IH)
  qed
qed

lemma render_email_base:
  assumes "render_email now md mail_item = Val (filename_base, md_content, attachments)"
  shows "filename_base \<noteq> []"
  using assms sanitize_nonempty unfolding render_email_def bind_com_def Let_def
  by (auto split: com.splits if_splits prod.splits)

lemma rendered_names:
  assumes "create_email_markdown now md mail_item = Val (filename_base, md_content, attachments)"
  shows "filename_base \<noteq> []" and "\<forall>x\<in>set attachments. fst x \<noteq> []"
proof -
  show "filename_base \<noteq> []"
  proof (cases "render_email now md mail_item")
    case (ComError e)
    then show ?thesis using assms by (auto simp: create_email_markdown_def)
  next
    case (Val r)
    then show ?thesis using assms render_email_base[of now md mail_item]
      by (auto simp: create_email_markdown_def)
  qed
  show "\<forall>x\<in>set attachments. fst x \<noteq> []"
  proof (cases "render_email now md mail_item")
    case (ComError e)
    then show ?thesis using assms by (auto simp: create_email_markdown_def)
  next
    case (Val r)
    then have "attachments = fst (read_attachments mail_item)"
      using assms render_email_attachments[of now md mail_item]
      by (auto simp: create_email_markdown_def)
    then show ?thesis
      using extract_names_nonempty[of "[]" 1 _ "[]"]
      by (auto simp: read_attachments_def split: collection.splits)
  qed
qed

lemma guf_shape:
  assumes "f @ e \<noteq> []"
  shows "\<exists>name. name \<noteq> [] \<and> generate_unique_filename ex out f e = out @ [name]
           \<and> (name = f @ e \<or> (\<exists>k\<ge>1. name = f @ ''_'' @ str_nat k @ e))"
proof (cases "joinpath out (f @ e) \<notin> set ex")
  case True
  then show ?thesis using assms by (auto simp: generate_unique_filename_def joinpath_def)
next
  case False
  then have "generate_unique_filename ex out f e = probe ex out f e 1"
    by (simp add: generate_unique_filename_def)
  moreover obtain k where "k \<ge> 1" "probe ex out f e 1 = candidate out f e k"
    using probe_least[of 1 ex out f e] by blast
  ultimately show ?thesis by (auto simp: candidate_def joinpath_def)
qed

lemma ancestors_snoc: "ancestors (p @ [n]) = ancestors p @ (if p = [] then [] else [p])"
proof (cases "p = []")
  case True
  then show ?thesis by (simp add: ancestors_def)
next
  case False
  then have l: "0 < length p" by simp
  then have "[1 ..< length (p @ [n])] = [1 ..< length p] @ [length p]"
    by (simp add: Suc_le_eq)
  then show ?thesis using False by (simp add: ancestors_def)
qed

lemma child_not_existing:
  assumes "wf_world w" "d \<notin> set (existing_paths w)" "d \<noteq> []"
  shows "d @ [n] \<notin> set (existing_paths w)"
proof
  assume "d @ [n] \<in> set (existing_paths w)"
  then have "set (ancestors (d @ [n])) \<subseteq> set (dirs w)" using assms(1) by (simp add: wf_world_def)
  then have "d \<in> set (dirs w)" using assms(3) by (simp add: ancestors_snoc)
  then show False using assms(2) by (simp add: existing_paths_def)
qed

lemma mkdir_fresh:
  assumes "wf_world w" "out @ [n] \<notin> set (denied w)" "out \<in> set (dirs w)"
    "out @ [n] \<notin> set (existing_paths w)"
  shows "mkdir_parents w (out @ [n]) = (w\<lparr>dirs := (out @ [n]) # dirs w\<rparr>, Val ())"
proof -
  have "out \<in> set (existing_paths w)" using assms(3) by (simp add: existing_paths_def)
  then have "set (ancestors out) \<subseteq> set (dirs w)" using assms(1) by (simp add: wf_world_def)
  then have "set (ancestors (out @ [n])) \<subseteq> set (dirs w)"
    using assms(3) by (simp add: ancestors_snoc)
  then have "filter (\<lambda>q. q \<notin> set (dirs w)) (rev (ancestors (out @ [n]))) = []"
    by (auto simp: filter_empty_conv)
  moreover have "out @ [n] \<notin> set (dirs w)" "out @ [n] \<notin> set (map fst (files w))"
    using assms(4) by (simp_all add: existing_paths_def)
  ultimately show ?thesis using assms(2) by (simp add: mkdir_parents_def)
qed

lemma write_file_ok:
  assumes "p \<notin> set (denied w)" "p \<notin> set (dirs w)" "parent p \<in> set (dirs w)"
  shows "write_file w p data = (w\<lparr>files := (p, data) # filter (\<lambda>(q, d). q \<noteq> p) (files w)\<rparr>, Val ())"
  using assms by (simp add: write_file_def)

lemma filter_fresh: "p \<notin> set (map fst fs) \<Longrightarrow> filter (\<lambda>(q, d). q \<noteq> p) fs = fs"
  by (induction fs) auto





lemma write_email_without_attachments:
  assumes wf: "wf_world w" and dn: "denied w = []" and out: "output_dir \<in> set (dirs w)"
  shows "\<exists>name.
           generate_unique_filename (existing_paths w) output_dir filename_base ''.md'' = output_dir @ [name]
         \<and> (name = filename_base @ ''.md''
              \<or> (\<exists>k\<ge>1. name = filename_base @ ''_'' @ str_nat k @ ''.md''))
         \<and> output_dir @ [name] \<notin> set (existing_paths w)
         \<and> write_email w output_dir (filename_base, md_content, [])
             = (w\<lparr>files := (output_dir @ [name], md_content) # files w\<rparr>, Val ())"
proof -
  from guf_shape[of filename_base "''.md''" "existing_paths w" output_dir]
  obtain name where name: "name \<noteq> []"
    "generate_unique_filename (existing_paths w) output_dir filename_base ''.md'' = output_dir @ [name]"
    "name = filename_base @ ''.md'' \<or> (\<exists>k\<ge>1. name = filename_base @ ''_'' @ str_nat k @ ''.md'')"
    by auto
  define p where "p = output_dir @ [name]"
  have pfresh: "p \<notin> set (existing_paths w)"
    using guf_fresh[of "existing_paths w" output_dir filename_base "''.md''"] name(2) by (simp add: p_def)
  then have pf: "p \<notin> set (dirs w)" "p \<notin> set (map fst (files w))" by (simp_all add: existing_paths_def)
  have "write_file w p md_content
          = (w\<lparr>files := (p, md_content) # filter (\<lambda>(q, x). q \<noteq> p) (files w)\<rparr>, Val ())"
    by (rule write_file_ok[OF _ pf(1)]) (simp_all add: parent_def p_def out dn)
  then have "write_file w p md_content = (w\<lparr>files := (p, md_content) # files w\<rparr>, Val ())"
    using filter_fresh[OF pf(2)] by simp
  then have "write_email w output_dir (filename_base, md_content, [])
             = (w\<lparr>files := (p, md_content) # files w\<rparr>, Val ())"
    using name(2) by (simp add: write_email_def Let_def p_def)
  then show ?thesis using name(2,3) pfresh unfolding p_def by blast
qed

lemma example_sender: "extract_sender_name (Some ''Ann'') = ''Ann''"
proof -
  have sw: "strip_ws ''Ann'' = ''Ann''" by (simp add: strip_ws_def is_space_def)
  have "\<forall>n a. \<not> display_form (strip_ws ''Ann'') n a"
    by (rule no_bracket_no_display_form) simp
  from sender_trimmed[OF _ this] show ?thesis by (simp add: sw)
qed

lemma example_base: "sanitize_filename_default ''2024-01-02_Ann_Hi'' = ''2024-01-02_Ann_Hi''"
  by (simp add: sanitize_filename_default_def sanitize_filename_def replace_invalid_def
      invalid_chars_def strip_def lstrip_def rstrip_def slice_to_def)

lemma example_rendered:
  "create_email_markdown example_now md_plain (example_item as)
     = Val (''2024-01-02_Ann_Hi'',
            compose_markdown ''Hi'' ''Ann'' [] [] ''2024-01-02 03:04:05''
              (snd (extract_attachments 1 as ([], []))) ''Hello'',
            fst (extract_attachments 1 as ([], [])))"
  unfolding create_email_markdown_def render_email_def bind_com_def Let_def
  by (simp add: example_item_def or_else_def guarded_def format_recipients_def
      format_email_date_def html_to_markdown_def read_attachments_def example_sender
      example_base split: prod.splits)

lemma example_world_wf: "wf_world example_world"
  by (simp add: wf_world_def example_world_def existing_paths_def ancestors_def)

lemma example_attachment_value:
  "fst (extract_attachments 1 [example_attachment ''a.txt'' (Val ''DATA'')] ([], []))
     = [(''a.txt'', ''DATA'')]"
  "snd (extract_attachments 1 [example_attachment ''a.txt'' (Val ''DATA'')] ([], []))
     = [''- [a.txt](a.txt)'']"
  by (simp_all add: example_attachment_def sanitize_a or_else_def)

lemma example_rendered_attachment:
  "create_email_markdown example_now md_plain
     (example_item [example_attachment ''a.txt'' (Val ''DATA'')])
   = Val (''2024-01-02_Ann_Hi'', example_doc [''- [a.txt](a.txt)''], [(''a.txt'', ''DATA'')])"
  by (simp only: example_rendered example_attachment_value example_doc_def)

lemma example_rendered_plain:
  "create_email_markdown example_now md_plain (example_item [])
   = Val (''2024-01-02_Ann_Hi'', example_doc [], [])"
  by (simp add: example_rendered example_doc_def)

lemma example_folder_name:
  "generate_unique_filename (existing_paths (example_world\<lparr>denied := ds\<rparr>)) [''out'']
     ''2024-01-02_Ann_Hi'' [] = [''out'', ''2024-01-02_Ann_Hi'']"
  by (simp add: generate_unique_filename_def joinpath_def existing_paths_def example_world_def)

lemma example_file_name:
  "generate_unique_filename (existing_paths example_world) [''out''] ''2024-01-02_Ann_Hi'' ''.md''
     = [''out'', ''2024-01-02_Ann_Hi.md'']"
  by (simp add: generate_unique_filename_def joinpath_def existing_paths_def example_world_def)

lemma write_email_partial:
  assumes b: "filename_base \<noteq> []" and n: "n \<noteq> []" "n \<noteq> filename_base @ ''.md''"
    and wf: "wf_world w" and out: "output_dir \<in> set (dirs w)"
    and den: "denied w = [generate_unique_filename (existing_paths w) output_dir filename_base [] @ [n]]"
  shows "write_email w output_dir (filename_base, md_content, (n, data) # rest)
           = (w\<lparr>dirs := generate_unique_filename (existing_paths w) output_dir filename_base [] # dirs w,
                 files := (generate_unique_filename (existing_paths w) output_dir filename_base []
                             @ [filename_base @ ''.md''], md_content) # files w\<rparr>,
              ComError ''PermissionError'')"
proof -
  define d where "d = generate_unique_filename (existing_paths w) output_dir filename_base []"
  from guf_shape[of filename_base "[]" "existing_paths w" output_dir] b
  obtain name where name: "name \<noteq> []" "d = output_dir @ [name]" by (auto simp: d_def)
  have dfresh: "d \<notin> set (existing_paths w)" unfolding d_def by (rule guf_fresh)
  have dne: "d \<noteq> []" by (simp add: name(2))
  have den': "denied w = [d @ [n]]" using den by (simp add: d_def)
  define w1 where "w1 = w\<lparr>dirs := d # dirs w\<rparr>"
  have "mkdir_parents w (output_dir @ [name]) = (w\<lparr>dirs := (output_dir @ [name]) # dirs w\<rparr>, Val ())"
    by (rule mkdir_fresh[OF wf _ out]) (use dfresh den' name(2) in simp_all)
  then have mk: "mkdir_parents w d = (w1, Val ())" by (simp add: w1_def name(2))
  define p where "p = d @ [filename_base @ ''.md'']"
  have pj: "joinpath d (filename_base @ ''.md'') = p" by (simp add: joinpath_def p_def)
  have "p \<notin> set (existing_paths w)" unfolding p_def by (rule child_not_existing[OF wf dfresh dne])
  then have pfresh: "p \<notin> set (dirs w)" "p \<notin> set (map fst (files w))"
    by (simp_all add: existing_paths_def)
  define w2 where "w2 = w1\<lparr>files := (p, md_content) # files w\<rparr>"
  have "write_file w1 p md_content
          = (w1\<lparr>files := (p, md_content) # filter (\<lambda>(q, x). q \<noteq> p) (files w1)\<rparr>, Val ())"
  proof (rule write_file_ok)
    show "p \<notin> set (denied w1)" using den' n(2) by (simp add: w1_def p_def)
    show "p \<notin> set (dirs w1)" using pfresh(1) by (simp add: w1_def p_def)
    show "parent p \<in> set (dirs w1)" by (simp add: parent_def p_def w1_def)
  qed
  then have wr: "write_file w1 p md_content = (w2, Val ())"
    using filter_fresh[OF pfresh(2)] by (simp add: w2_def w1_def)
  have "write_file w2 (joinpath d n) data = (w2, ComError ''PermissionError'')"
    using n(1) den' by (simp add: write_file_def joinpath_def w2_def w1_def)
  then have wa: "write_attachments w2 d ((n, data) # rest) = (w2, ComError ''PermissionError'')"
    by simp
  have "write_email w output_dir (filename_base, md_content, (n, data) # rest)
          = (w2, ComError ''PermissionError'')"
    using mk wr wa by (simp add: write_email_def Let_def d_def[symmetric] pj)
  then show ?thesis by (simp add: w2_def w1_def p_def d_def)
qed

lemma process_pst_file_error_zero:
  assumes "process_pst_file env s w pst_path output_dir = (w', Val (name, count, Some e))"
  shows "count = 0"
  using assms unfolding process_pst_file_def session_body_def Let_def bind_com_def
  by (auto split: if_splits prod.splits com.splits collection.splits option.splits walk.splits)

lemma late_failure:
  assumes ex: "pst_path \<in> set (existing_paths w)"
    and mk: "mkdir_parents w out = (w0, Val ())"
    and at: "attach s = Val ()" and tf: "top_folders s = Collection fs"
    and fs: "find_store pst_path fs = Val (Some f)"
    and po: "pbar_open s = Val ()" and pc: "pbar_close s = Val ()"
    and walk: "process_folder env out f w0 = (w1, Aborted k e)"
  shows "process_pst_file env s w pst_path (Some out) = (w1, Val (path_name pst_path, 0, Some e))"
  using assms by (simp add: process_pst_file_def session_body_def bind_com_def)

lemma wf_world_denied: "wf_world (w\<lparr>denied := ds\<rparr>) = wf_world w"
  by (simp add: wf_world_def existing_paths_def)

lemma process_item_plain:
  assumes cls: "Class item = Val 43"
    and r: "create_email_markdown (clock env) (converter env) item = Val (filename_base, md_content, [])"
    and wf: "wf_world w" and dn: "denied w = []" and out: "output_dir \<in> set (dirs w)"
  shows "process_item env output_dir (Val item) w k
           = (w\<lparr>files := (generate_unique_filename (existing_paths w) output_dir filename_base ''.md'',
                            md_content) # files w\<rparr>, Suc k, pbar_update env)"
proof -
  from write_email_without_attachments[OF wf dn out, of filename_base md_content]
  obtain name where
    "generate_unique_filename (existing_paths w) output_dir filename_base ''.md'' = output_dir @ [name]"
    "write_email w output_dir (filename_base, md_content, [])
       = (w\<lparr>files := (output_dir @ [name], md_content) # files w\<rparr>, Val ())" by blast
  then show ?thesis using cls r by (simp add: process_item_def)
qed

lemma example_walk_aborts:
  "process_folder example_env_broken [''out''] example_root example_world
     = (example_world\<lparr>files := ([''out'', ''2024-01-02_Ann_Hi.md''], example_doc [])
                                  # files example_world\<rparr>,
        Aborted 1 ''stream closed'')"
proof -
  have dn: "denied example_world = []" and out: "[''out''] \<in> set (dirs example_world)"
    by (simp_all add: example_world_def)
  have cls: "Class (example_item []) = Val 43" by (simp add: example_item_def)
  have r: "create_email_markdown (clock example_env_broken) (converter example_env_broken)
             (example_item []) = Val (''2024-01-02_Ann_Hi'', example_doc [], [])"
    using example_rendered_plain by (simp add: example_env_broken_def)
  have pi: "process_item example_env_broken [''out''] (Val (example_item [])) example_world 0
          = (example_world\<lparr>files := ([''out'', ''2024-01-02_Ann_Hi.md''], example_doc [])
                                       # files example_world\<rparr>,
             Suc 0, pbar_update example_env_broken)"
    using process_item_plain[OF cls r example_world_wf dn out, of 0]
    by (simp only: example_file_name)
  have pu: "pbar_update example_env_broken = Val ()"
    and pw: "pbar_write example_env_broken m = ComError ''stream closed''" for m
    by (simp_all add: example_env_broken_def)
  have pe: "process_item example_env_broken [''out''] (ComError ''item unreadable'') w k
              = (w, k, ComError ''item unreadable'')" for w k
    by (simp add: process_item_def)
  have "process_items example_env_broken [''out'']
          [Val (example_item []), ComError ''item unreadable''] example_world 0
        = (example_world\<lparr>files := ([''out'', ''2024-01-02_Ann_Hi.md''], example_doc [])
                                       # files example_world\<rparr>,
           Suc 0, ComError ''stream closed'')"
    by (simp add: pi pe pu pw)
  then show ?thesis by (simp add: example_root_def pw)
qed

lemma example_mkdir: "mkdir_parents example_world [''out''] = (example_world, Val ())"
  by (simp add: mkdir_parents_def example_world_def ancestors_def)



text \<open>
  C10. Writing one item is not atomic. Take a mail item that renders with at least one
  attachment, on a well-formed file system whose output root exists and which refuses
  exactly the path of the first attachment (whose name is not that of the document).
  Then the walk of a folder holding just this item creates the item's directory and writes
  the document, fails at the attachment, catches the failure and returns the count 0:
  the item is not counted, and the directory and the document, which did not exist
  before, remain.
\<close>

theorem partial_write_not_rolled_back:
  assumes cls: "Class item = Val 43"
    and r: "create_email_markdown (clock env) (converter env) item
              = Val (filename_base, md_content, (n, data) # rest)"
    and nmd: "n \<noteq> filename_base @ ''.md''"
    and wf: "wf_world w" and out: "output_dir \<in> set (dirs w)"
    and den: "denied w = [generate_unique_filename (existing_paths w) output_dir filename_base [] @ [n]]"
    and pw: "pbar_write env (''Warning: Failed to process item: '' @ ''PermissionError'') = Val ()"
    and pu: "pbar_update env = Val ()"
  shows "process_folder env output_dir (Folder (Collection [Val item]) (Collection [])) w
           = (w\<lparr>dirs := generate_unique_filename (existing_paths w) output_dir filename_base [] # dirs w,
                 files := (generate_unique_filename (existing_paths w) output_dir filename_base []
                             @ [filename_base @ ''.md''], md_content) # files w\<rparr>,
              Done 0)
         \<and> generate_unique_filename (existing_paths w) output_dir filename_base [] \<notin> set (existing_paths w)
         \<and> generate_unique_filename (existing_paths w) output_dir filename_base []
              @ [filename_base @ ''.md''] \<notin> set (existing_paths w)"
proof -
  define d where "d = generate_unique_filename (existing_paths w) output_dir filename_base []"
  define w2 where "w2 = w\<lparr>dirs := d # dirs w, files := (d @ [filename_base @ ''.md''], md_content) # files w\<rparr>"
  have names: "filename_base \<noteq> []" "n \<noteq> []" using rendered_names[OF r] by simp_all
  have we: "write_email w output_dir (filename_base, md_content, (n, data) # rest)
              = (w2, ComError ''PermissionError'')"
    unfolding w2_def d_def by (rule write_email_partial[OF names nmd wf out den])
  have pi: "process_item env output_dir (Val item) w 0 = (w2, 0, ComError ''PermissionError'')"
    using cls r we by (simp add: process_item_def)
  have "process_items env output_dir [Val item] w 0 = (w2, 0, Val ())"
    using pi pw pu by simp
  then have pf: "process_folder env output_dir (Folder (Collection [Val item]) (Collection [])) w
           = (w2, Done 0)" by simp
  have dfresh: "d \<notin> set (existing_paths w)" unfolding d_def by (rule guf_fresh)
  obtain name where "d = output_dir @ [name]"
    using guf_shape[of filename_base "[]" "existing_paths w" output_dir] names(1) by (auto simp: d_def)
  then have "d \<noteq> []" by simp
  then have "d @ [filename_base @ ''.md''] \<notin> set (existing_paths w)"
    by (rule child_not_existing[OF wf dfresh])
  then show ?thesis using pf dfresh unfolding w2_def d_def by simp
qed

theorem partial_write_not_rolled_back_witness:
  "process_folder example_env [''out'']
     (Folder (Collection [Val (example_item [example_attachment ''a.txt'' (Val ''DATA'')])])
        (Collection []))
     example_world_denied
   = (example_world_denied
        \<lparr>dirs := [''out'', ''2024-01-02_Ann_Hi''] # dirs example_world_denied,
         files := ([''out'', ''2024-01-02_Ann_Hi'', ''2024-01-02_Ann_Hi.md''],
                   example_doc [''- [a.txt](a.txt)'']) # files example_world_denied\<rparr>,
      Done 0)"
proof -
  have cls: "Class (example_item [example_attachment ''a.txt'' (Val ''DATA'')]) = Val 43"
    by (simp add: example_item_def)
  have r: "create_email_markdown (clock example_env) (converter example_env)
             (example_item [example_attachment ''a.txt'' (Val ''DATA'')])
           = Val (''2024-01-02_Ann_Hi'', example_doc [''- [a.txt](a.txt)''],
                  (''a.txt'', ''DATA'') # [])"
    using example_rendered_attachment by (simp add: example_env_def)
  have nmd: "''a.txt'' \<noteq> ''2024-01-02_Ann_Hi'' @ ''.md''" by simp
  have wf: "wf_world example_world_denied"
    unfolding example_world_denied_def wf_world_denied by (rule example_world_wf)
  have out: "[''out''] \<in> set (dirs example_world_denied)"
    by (simp add: example_world_denied_def example_world_def)
  have fn: "generate_unique_filename (existing_paths example_world_denied) [''out'']
              ''2024-01-02_Ann_Hi'' [] = [''out'', ''2024-01-02_Ann_Hi'']"
    unfolding example_world_denied_def by (rule example_folder_name)
  have den: "denied example_world_denied
             = [generate_unique_filename (existing_paths example_world_denied) [''out'']
                  ''2024-01-02_Ann_Hi'' [] @ [''a.txt'']]"
    unfolding fn by (simp add: example_world_denied_def)
  have pw: "pbar_write example_env (''Warning: Failed to process item: '' @ ''PermissionError'')
              = Val ()"
    and pu: "pbar_update example_env = Val ()" by (simp_all add: example_env_def)
  show ?thesis using partial_write_not_rolled_back[OF cls r nmd wf out den pw pu] by (simp only: fn) simp
qed

text \<open>
  C3 (as amended). Let the archive exist, the session open and the root folder be found,
  and let the walk be left by an exception \<open>e\<close> after \<open>k\<close> items were processed. Then the
  result of \<open>process_pst_file\<close> carries the error \<open>e\<close> and the count 0, whatever \<open>k\<close> is;
  the files written before the failure stay. In general, whenever the result carries an
  error its count is 0.
\<close>

theorem late_failure_reports_zero:
  assumes ex: "pst_path \<in> set (existing_paths w)"
    and mk: "mkdir_parents w out = (w0, Val ())"
    and at: "attach s = Val ()" and tf: "top_folders s = Collection fs"
    and fs: "find_store pst_path fs = Val (Some f)"
    and po: "pbar_open s = Val ()" and pc: "pbar_close s = Val ()"
    and walk: "process_folder env out f w0 = (w1, Aborted k e)"
  shows "process_pst_file env s w pst_path (Some out) = (w1, Val (path_name pst_path, 0, Some e))
       \<and> (\<forall>w' name count err.
            process_pst_file env s w pst_path output_dir = (w', Val (name, count, Some err))
              \<longrightarrow> count = 0)"
  using late_failure[OF assms] process_pst_file_error_zero by blast

theorem late_failure_reports_zero_witness:
  "process_folder example_env_broken [''out''] example_root example_world
     = (example_world\<lparr>files := ([''out'', ''2024-01-02_Ann_Hi.md''], example_doc [])
                                  # files example_world\<rparr>,
        Aborted 1 ''stream closed'')
   \<and> process_pst_file example_env_broken example_session example_world [''in'', ''mail.pst'']
        (Some [''out''])
     = (example_world\<lparr>files := ([''out'', ''2024-01-02_Ann_Hi.md''], example_doc [])
                                  # files example_world\<rparr>,
        Val (''mail.pst'', 0, Some ''stream closed''))"
proof -
  have ex: "[''in'', ''mail.pst''] \<in> set (existing_paths example_world)"
    by (simp add: existing_paths_def example_world_def)
  have at: "attach example_session = Val ()"
    and tf: "top_folders example_session
               = Collection [Val \<lparr> store_path = Val [''in'', ''mail.pst''], root = example_root \<rparr>]"
    and po: "pbar_open example_session = Val ()" and pc: "pbar_close example_session = Val ()"
    by (simp_all add: example_session_def)
  have fs: "find_store [''in'', ''mail.pst'']
              [Val \<lparr> store_path = Val [''in'', ''mail.pst''], root = example_root \<rparr>]
            = Val (Some example_root)" by simp
  show ?thesis
    using late_failure_reports_zero[OF ex example_mkdir at tf fs po pc example_walk_aborts] example_walk_aborts
    by (simp add: path_name_def)
qed

text \<open>
  The claim as first stated says that the count of a failed archive is the number of
  items completed. In the example the walk has processed one item when the console
  fails, and the result of the archive carries the count 0.
\<close>

theorem late_failure_count_counterexample:
  "snd (process_folder example_env_broken [''out''] example_root example_world)
     = Aborted 1 ''stream closed''
   \<and> snd (process_pst_file example_env_broken example_session example_world [''in'', ''mail.pst'']
        (Some [''out'']))
     = Val (''mail.pst'', 0, Some ''stream closed'')"
proof -
  have ex: "[''in'', ''mail.pst''] \<in> set (existing_paths example_world)"
    by (simp add: existing_paths_def example_world_def)
  have at: "attach example_session = Val ()"
    and tf: "top_folders example_session
               = Collection [Val \<lparr> store_path = Val [''in'', ''mail.pst''], root = example_root \<rparr>]"
    and po: "pbar_open example_session = Val ()" and pc: "pbar_close example_session = Val ()"
    by (simp_all add: example_session_def)
  have fs: "find_store [''in'', ''mail.pst'']
              [Val \<lparr> store_path = Val [''in'', ''mail.pst''], root = example_root \<rparr>]
            = Val (Some example_root)" by simp
  show ?thesis
    using late_failure[OF ex example_mkdir at tf fs po pc example_walk_aborts] example_walk_aborts
    by (simp add: path_name_def)
qed

end
